theory Spec2Isabelle
  imports Complex_Main "HOL-Library.Sublist" "HOL-Library.Multiset"
begin

section \<open>Data model\<close>

text \<open>
  The repository holds one retrieval-augmented chat backend in several deployment
  variants: \<^verbatim>\<open>functions/server.js\<close> (Express with a Firestore chunk store), the
  in-memory Express server (\<^verbatim>\<open>src/unnamed/part_000\<close>, store kept in the array
  \<^verbatim>\<open>ragChunks\<close>) and the two Cloud Functions files in \<^verbatim>\<open>src/unnamed/part_001\<close>.
  The helpers \<^verbatim>\<open>cosineSimilarity\<close> and \<^verbatim>\<open>chunkText\<close> are the same in all of them;
  where the variants differ, the in-memory one carries the suffix \<open>_mem\<close>.

  JavaScript strings are modelled as \<^typ>\<open>string\<close>, each \<^typ>\<open>char\<close> standing for one code
  unit in the range U+0000 .. U+00FF.
\<close>

subsection \<open>Numbers\<close>

text \<open>
  A JavaScript number is an IEEE 754 binary64 value: \<open>Num r\<close> is the finite double whose
  exact value is the real number \<open>r\<close>, next to \<^verbatim>\<open>NaN\<close> and the two infinities. The two
  zeros are one value, \<open>Num 0\<close>: the program tells them apart nowhere (\<^verbatim>\<open>!x\<close>,
  \<^verbatim>\<open>x - y > 0\<close>, \<^verbatim>\<open>toFixed\<close> and JSON treat them alike, and the one divisor of the
  program is a product of square roots).
\<close>

datatype jsnum = Num real | NaN | PosInfinity | NegInfinity

text \<open>
  Every arithmetic operation returns the double nearest to the exact result, the one
  with the even significand on a tie. The doubles near \<open>x\<close> are the multiples of
  \<open>2 powi ulp_exp x\<close>: 53 significant bits, and the multiples of \<open>2 powi emin\<close> below the
  least normal number \<open>2 powi (- 1022)\<close>. A result that rounds to \<open>2 ^ 1024\<close> or beyond is
  an infinity.
\<close>

definition emin :: int where
  "emin = - 1074"

definition huge :: real where
  "huge = 2 ^ 1024"

definition round_even :: "real \<Rightarrow> int" where
  "round_even y =
     (let f = \<lfloor>y\<rfloor>; r = y - of_int f
      in if r < 1 / 2 then f else if 1 / 2 < r then f + 1
         else if even f then f else f + 1)"

definition ulp_exp :: "real \<Rightarrow> int" where
  "ulp_exp x = max (\<lfloor>log 2 \<bar>x\<bar>\<rfloor> - 52) emin"

definition fl_round :: "real \<Rightarrow> jsnum" where
  "fl_round x =
     (if x = 0 then Num 0
      else let e = ulp_exp x; y = of_int (round_even (x / 2 powi e)) * 2 powi e
           in if huge \<le> \<bar>y\<bar> then (if 0 < x then PosInfinity else NegInfinity) else Num y)"

text \<open>
  The operators \<^verbatim>\<open>+\<close>, \<^verbatim>\<open>-\<close>, \<^verbatim>\<open>*\<close>, \<^verbatim>\<open>/\<close> and \<^verbatim>\<open>Math.sqrt\<close> on numbers.
  \<^verbatim>\<open>Math.sqrt\<close> is the correctly rounded square root of IEEE 754, as in Node.
\<close>

fun js_add :: "jsnum \<Rightarrow> jsnum \<Rightarrow> jsnum" where
  "js_add (Num x) (Num y) = fl_round (x + y)"
| "js_add NaN _ = NaN"
| "js_add _ NaN = NaN"
| "js_add PosInfinity NegInfinity = NaN"
| "js_add NegInfinity PosInfinity = NaN"
| "js_add PosInfinity _ = PosInfinity"
| "js_add NegInfinity _ = NegInfinity"
| "js_add (Num x) PosInfinity = PosInfinity"
| "js_add (Num x) NegInfinity = NegInfinity"

fun js_sub :: "jsnum \<Rightarrow> jsnum \<Rightarrow> jsnum" where
  "js_sub (Num x) (Num y) = fl_round (x - y)"
| "js_sub NaN _ = NaN"
| "js_sub _ NaN = NaN"
| "js_sub PosInfinity PosInfinity = NaN"
| "js_sub NegInfinity NegInfinity = NaN"
| "js_sub PosInfinity _ = PosInfinity"
| "js_sub NegInfinity _ = NegInfinity"
| "js_sub (Num x) PosInfinity = NegInfinity"
| "js_sub (Num x) NegInfinity = PosInfinity"

text \<open>An infinity of the given sign times a finite number.\<close>

definition inf_times :: "bool \<Rightarrow> real \<Rightarrow> jsnum" where
  "inf_times positive x =
     (if x = 0 then NaN else if (0 < x) = positive then PosInfinity else NegInfinity)"

fun js_mul :: "jsnum \<Rightarrow> jsnum \<Rightarrow> jsnum" where
  "js_mul (Num x) (Num y) = fl_round (x * y)"
| "js_mul NaN _ = NaN"
| "js_mul _ NaN = NaN"
| "js_mul (Num x) PosInfinity = inf_times True x"
| "js_mul (Num x) NegInfinity = inf_times False x"
| "js_mul PosInfinity (Num y) = inf_times True y"
| "js_mul NegInfinity (Num y) = inf_times False y"
| "js_mul PosInfinity PosInfinity = PosInfinity"
| "js_mul NegInfinity NegInfinity = PosInfinity"
| "js_mul PosInfinity NegInfinity = NegInfinity"
| "js_mul NegInfinity PosInfinity = NegInfinity"

text \<open>
  Division never raises: a finite number over zero is \<^verbatim>\<open>NaN\<close> or an infinity (of the
  sign of the dividend, the zero being the positive one), a finite number over an
  infinity is zero.
\<close>

fun js_div :: "jsnum \<Rightarrow> jsnum \<Rightarrow> jsnum" where
  "js_div (Num x) (Num y) =
     (if y = 0 then (if x = 0 then NaN else if 0 < x then PosInfinity else NegInfinity)
      else fl_round (x / y))"
| "js_div NaN _ = NaN"
| "js_div _ NaN = NaN"
| "js_div (Num x) _ = Num 0"
| "js_div PosInfinity (Num y) = (if 0 \<le> y then PosInfinity else NegInfinity)"
| "js_div NegInfinity (Num y) = (if 0 \<le> y then NegInfinity else PosInfinity)"
| "js_div _ _ = NaN"

fun js_sqrt :: "jsnum \<Rightarrow> jsnum" where
  "js_sqrt (Num x) = (if x < 0 then NaN else fl_round (sqrt x))"
| "js_sqrt PosInfinity = PosInfinity"
| "js_sqrt _ = NaN"

text \<open>The test \<^verbatim>\<open>!v\<close> on a number: true for zero and for \<^verbatim>\<open>NaN\<close>.\<close>

fun js_falsy :: "jsnum \<Rightarrow> bool" where
  "js_falsy (Num x) = (x = 0)"
| "js_falsy NaN = True"
| "js_falsy _ = False"

text \<open>The test \<^verbatim>\<open>v > 0\<close>; it is false for \<^verbatim>\<open>NaN\<close>.\<close>

fun js_positive :: "jsnum \<Rightarrow> bool" where
  "js_positive (Num x) = (0 < x)"
| "js_positive PosInfinity = True"
| "js_positive _ = False"

text \<open>The real number a finite value holds.\<close>

fun num_of :: "jsnum \<Rightarrow> real" where
  "num_of (Num r) = r"
| "num_of _ = 0"

subsection \<open>Records\<close>

text \<open>The value of the field \<^verbatim>\<open>embedding\<close> of a stored record, as the ranker sees it.\<close>

datatype embedding_field =
    Missing                \<comment> \<open>no such field, \<^verbatim>\<open>undefined\<close> or \<^verbatim>\<open>null\<close>\<close>
  | NotArray               \<comment> \<open>a value for which \<^verbatim>\<open>Array.isArray\<close> is false\<close>
  | Vec "jsnum list"       \<comment> \<open>an array of numbers\<close>

record chunk =
  chunk_id :: string
  chunk_text :: string
  embedding :: embedding_field
  sourceType :: string
  sourceName :: string
  createdAt :: int

text \<open>
  A scored candidate. The Firestore variants build it as \<^verbatim>\<open>{...d, score}\<close>; the in-memory
  variant copies \<^verbatim>\<open>id\<close>, \<^verbatim>\<open>text\<close>, \<^verbatim>\<open>sourceType\<close> and \<^verbatim>\<open>sourceName\<close> next to
  \<^verbatim>\<open>score\<close>, and nothing later reads the two fields it leaves out.
\<close>

record scored = chunk +
  score :: jsnum

section \<open>Helpers\<close>

subsection \<open>cosineSimilarity\<close>

text \<open>
  \<^verbatim>\<open>
  function cosineSimilarity(a, b) {
    const len = Math.min(a.length, b.length);
    let dot = 0; let na = 0; let nb = 0;
    for (let i = 0; i < len; i++) {
      dot += a[i] * b[i]; na += a[i] * a[i]; nb += b[i] * b[i];
    }
    if (!na || !nb) return 0;
    return dot / (Math.sqrt(na) * Math.sqrt(nb));
  }
  \<close>
  The loop reads \<^verbatim>\<open>a[i]\<close> and \<^verbatim>\<open>b[i]\<close> only for \<open>i < len\<close>, where both exist.
\<close>

function cosine_loop ::
  "jsnum list \<Rightarrow> jsnum list \<Rightarrow> nat \<Rightarrow> nat \<Rightarrow> jsnum \<times> jsnum \<times> jsnum
     \<Rightarrow> jsnum \<times> jsnum \<times> jsnum" where
  "cosine_loop a b len i (dot, na, nb) =
     (if i < len
      then cosine_loop a b len (Suc i)
             (js_add dot (js_mul (a ! i) (b ! i)),
              js_add na (js_mul (a ! i) (a ! i)),
              js_add nb (js_mul (b ! i) (b ! i)))
      else (dot, na, nb))"
  by pat_completeness auto
termination
  by (relation "measure (\<lambda>(a, b, len, i, acc). len - i)") auto

declare cosine_loop.simps [simp del]

definition cosineSimilarity :: "jsnum list \<Rightarrow> jsnum list \<Rightarrow> jsnum" where
  "cosineSimilarity a b =
     (let len = min (length a) (length b);
          (dot, na, nb) = cosine_loop a b len 0 (Num 0, Num 0, Num 0)
      in if js_falsy na \<or> js_falsy nb then Num 0
         else js_div dot (js_mul (js_sqrt na) (js_sqrt nb)))"

subsection \<open>chunkText\<close>

text \<open>
  \<^verbatim>\<open>
  function chunkText(text, maxChars = 800) {
    const chunks = [];
    let start = 0;
    while (start < text.length) {
      chunks.push(text.slice(start, start + maxChars));
      start += maxChars;
    }
    return chunks;
  }
  \<close>
  With \<^verbatim>\<open>maxChars\<close> equal to 0 and a non-empty text the loop never ends, so the loop is a
  partial function: the value \<open>None\<close> stands for a call that does not return.
  \<^verbatim>\<open>maxChars\<close> is a character count (a natural number); \<open>None\<close> is an omitted argument.
\<close>

partial_function (option) chunk_loop ::
  "'a list \<Rightarrow> nat \<Rightarrow> nat \<Rightarrow> 'a list list \<Rightarrow> 'a list list option" where
  "chunk_loop text maxChars start chunks =
     (if start < length text
      then chunk_loop text maxChars (start + maxChars)
             (chunks @ [take maxChars (drop start text)])
      else Some chunks)"

declare chunk_loop.simps [code]

definition chunkText :: "'a list \<Rightarrow> nat option \<Rightarrow> 'a list list option" where
  "chunkText text maxChars =
     chunk_loop text (case maxChars of None \<Rightarrow> 800 | Some m \<Rightarrow> m) 0 []"

text \<open>
  The in-memory server writes the default as \<^verbatim>\<open>maxChars = maxChars || 800\<close>, which also
  replaces 0.
\<close>

definition chunkText_mem :: "'a list \<Rightarrow> nat option \<Rightarrow> 'a list list option" where
  "chunkText_mem text maxChars =
     chunk_loop text
       (case maxChars of None \<Rightarrow> 800 | Some m \<Rightarrow> if m = 0 then 800 else m) 0 []"

text \<open>
  The formula of the specification, for two vectors already cut to a common length: the
  dot product over the product of the two norms, and 0 when a norm is zero; the sums are
  taken from the first component on, in double arithmetic.
\<close>

definition cosine_spec :: "jsnum list \<Rightarrow> jsnum list \<Rightarrow> jsnum" where
  "cosine_spec x y =
     (let dot = foldl js_add (Num 0) (map2 js_mul x y);
          nx = js_sqrt (foldl js_add (Num 0) (map (\<lambda>v. js_mul v v) x));
          ny = js_sqrt (foldl js_add (Num 0) (map (\<lambda>v. js_mul v v) y))
      in if js_falsy nx \<or> js_falsy ny then Num 0 else js_div dot (js_mul nx ny))"

text \<open>
  Two sets of values for the proofs: what a sum of squares can be (not negative, a
  multiple of the least positive double), and the values that are at least \<open>2 powi p\<close>.
\<close>

definition sum_of_squares :: "jsnum \<Rightarrow> bool" where
  "sum_of_squares v \<longleftrightarrow>
     v = NaN \<or> v = PosInfinity
     \<or> (\<exists>y k. v = Num y \<and> 0 \<le> y \<and> y = of_int k * 2 powi emin)"

definition at_least :: "int \<Rightarrow> jsnum \<Rightarrow> bool" where
  "at_least p v \<longleftrightarrow> v = PosInfinity \<or> (\<exists>y. v = Num y \<and> 2 powi p \<le> y)"

subsection \<open>Strings and numbers as text\<close>

definition nl :: char where
  "nl = CHR 0x0A"

text \<open>
  White space as \<^verbatim>\<open>String.prototype.trim\<close> and the class \<^verbatim>\<open>\s\<close> have it, within the
  modelled range: tab, line feed, vertical tab, form feed, carriage return, space and
  the no-break space.
\<close>

definition isWhiteSpace :: "char \<Rightarrow> bool" where
  "isWhiteSpace c =
     (c \<in> set [CHR 0x09, CHR 0x0A, CHR 0x0B, CHR 0x0C, CHR 0x0D, CHR 0x20, CHR 0xA0])"

definition trim :: "string \<Rightarrow> string" where
  "trim s = rev (dropWhile isWhiteSpace (rev (dropWhile isWhiteSpace s)))"

definition lower_char :: "char \<Rightarrow> char" where
  "lower_char c =
     (let n = (of_char c :: nat)
      in if (65 \<le> n \<and> n \<le> 90) \<or> (192 \<le> n \<and> n \<le> 222 \<and> n \<noteq> 215)
         then char_of (n + 32) else c)"

definition toLowerCase :: "string \<Rightarrow> string" where
  "toLowerCase s = map lower_char s"

text \<open>\<^verbatim>\<open>String(n)\<close> for a non-negative integer: its decimal digits.\<close>

definition digit :: "nat \<Rightarrow> char" where
  "digit d = ''0123456789'' ! d"

fun natToString :: "nat \<Rightarrow> string" where
  "natToString n =
     (if n < 10 then [digit n]
      else natToString (n div 10) @ [digit (n mod 10)])"

declare natToString.simps [simp del]

text \<open>
  \<^verbatim>\<open>x.toFixed(3)\<close>: the sign, then the integer \<open>n\<close> nearest to \<open>|x| * 1000\<close> (the larger
  one on a tie) written with at least four digits and a point before the last three.
  Non-finite values print by name. From \<open>10^21\<close> on JavaScript switches to exponent
  notation, which is not modelled: a finite score is a quotient far below that.
\<close>

definition toFixed3 :: "jsnum \<Rightarrow> string" where
  "toFixed3 v =
     (case v of
        NaN \<Rightarrow> ''NaN''
      | PosInfinity \<Rightarrow> ''Infinity''
      | NegInfinity \<Rightarrow> ''-Infinity''
      | Num x \<Rightarrow>
          (let s = (if x < 0 then ''-'' else []);
               n = nat \<lfloor>\<bar>x\<bar> * 1000 + 1 / 2\<rfloor>;
               m = natToString n;
               m' = (if length m \<le> 3 then replicate (4 - length m) (CHR ''0'') @ m else m)
           in s @ take (length m' - 3) m' @ ''.'' @ drop (length m' - 3) m'))"

text \<open>\<^verbatim>\<open>Array.prototype.join\<close> on strings.\<close>

fun join :: "string \<Rightarrow> string list \<Rightarrow> string" where
  "join sep [] = []"
| "join sep [x] = x"
| "join sep (x # y # ys) = x @ sep @ join sep (y # ys)"

subsection \<open>Ranking\<close>

text \<open>
  \<^verbatim>\<open>
  const scored = docs.map((d) => ({
    ...d,
    score: Array.isArray(d.embedding) ? cosineSimilarity(queryEmbedding, d.embedding) : 0,
  }));
  scored.sort((a, b) => b.score - a.score);
  const topK = scored.slice(0, 5);
  \<close>
  The in-memory server writes the guard as
  \<^verbatim>\<open>d.embedding && Array.isArray(d.embedding)\<close>, which selects the same records.
\<close>

definition score_of :: "jsnum list \<Rightarrow> chunk \<Rightarrow> jsnum" where
  "score_of queryEmbedding d =
     (case embedding d of
        Vec e \<Rightarrow> cosineSimilarity queryEmbedding e
      | _ \<Rightarrow> Num 0)"

definition with_score :: "chunk \<Rightarrow> jsnum \<Rightarrow> scored" where
  "with_score d s = chunk.extend d (scored.fields s)"

definition scoredOf :: "jsnum list \<Rightarrow> chunk list \<Rightarrow> scored list" where
  "scoredOf queryEmbedding docs = map (\<lambda>d. with_score d (score_of queryEmbedding d)) docs"

definition compareScore :: "scored \<Rightarrow> scored \<Rightarrow> jsnum" where
  "compareScore a b = js_sub (score b) (score a)"

text \<open>
  \<^verbatim>\<open>Array.prototype.sort\<close> with a comparison function is stable (ECMAScript 2019; the
  README names Node 20): an element moves behind another only when the comparison of the
  two is positive, and a comparison that is \<^verbatim>\<open>NaN\<close> counts as 0. For a consistent
  comparison function every stable sort returns the same array, the one this insertion
  sort builds. The comparison \<^verbatim>\<open>b.score - a.score\<close> is consistent when the scores are
  finite; with a \<^verbatim>\<open>NaN\<close> among them it is not, and the order is then the
  implementation's.
\<close>

fun sort_insert :: "('a \<Rightarrow> 'a \<Rightarrow> jsnum) \<Rightarrow> 'a \<Rightarrow> 'a list \<Rightarrow> 'a list" where
  "sort_insert cmp x [] = [x]"
| "sort_insert cmp x (y # ys) =
     (if js_positive (cmp x y) then y # sort_insert cmp x ys else x # y # ys)"

fun array_sort :: "('a \<Rightarrow> 'a \<Rightarrow> jsnum) \<Rightarrow> 'a list \<Rightarrow> 'a list" where
  "array_sort cmp [] = []"
| "array_sort cmp (x # xs) = sort_insert cmp x (array_sort cmp xs)"

definition topK_of :: "scored list \<Rightarrow> scored list" where
  "topK_of scored = take 5 (array_sort compareScore scored)"

definition rank :: "jsnum list \<Rightarrow> chunk list \<Rightarrow> scored list" where
  "rank queryEmbedding docs = topK_of (scoredOf queryEmbedding docs)"

subsection \<open>Query classifier\<close>

text \<open>
  \<^verbatim>\<open>
  const normalized = message.trim().toLowerCase();
  const wordCount = normalized.split(/\s+/).filter(Boolean).length;
  const isGreeting =
    /^(hi+|hello+|hey+|yo+|sup|good (morning|evening|afternoon|night))\b/.test(normalized);
  if (isGreeting && wordCount <= 5) { ... greeting ... }
  \<close>
  The regular expression is kept as a term of the fragment of the regular-expression
  language that it uses; a repetition \<^verbatim>\<open>+\<close> applies to a single character there.
\<close>

datatype regex =
    Str string             \<comment> \<open>a sequence of literal characters\<close>
  | PlusChr char           \<comment> \<open>\<^verbatim>\<open>c+\<close>\<close>
  | Cat regex regex
  | Alt regex regex        \<comment> \<open>\<^verbatim>\<open>r|s\<close>\<close>
  | WordB                  \<comment> \<open>\<^verbatim>\<open>\b\<close>\<close>
  | StartAnchor            \<comment> \<open>\<^verbatim>\<open>^\<close>\<close>

definition isWordChar :: "char \<Rightarrow> bool" where
  "isWordChar c =
     (let n = (of_char c :: nat)
      in (48 \<le> n \<and> n \<le> 57) \<or> (65 \<le> n \<and> n \<le> 90) \<or> n = 95 \<or> (97 \<le> n \<and> n \<le> 122))"

text \<open>
  A position in the input is the character before it (if any) and the rest of the input.
  \<open>rmatch r st\<close> lists the positions at which a match of \<open>r\<close> that starts at \<open>st\<close> can end.
\<close>

type_synonym rstate = "char option \<times> string"

fun rmatch :: "regex \<Rightarrow> rstate \<Rightarrow> rstate list" where
  "rmatch (Str w) (p, s) =
     (if take (length w) s = w
      then [(if w = [] then p else Some (last w), drop (length w) s)] else [])"
| "rmatch (PlusChr c) (p, s) =
     map (\<lambda>k. (Some c, drop k s)) [1..<Suc (length (takeWhile (\<lambda>x. x = c) s))]"
| "rmatch (Cat r1 r2) st = concat (map (rmatch r2) (rmatch r1 st))"
| "rmatch (Alt r1 r2) st = rmatch r1 st @ rmatch r2 st"
| "rmatch WordB (p, s) =
     (if (case p of None \<Rightarrow> False | Some c \<Rightarrow> isWordChar c)
          \<noteq> (case s of [] \<Rightarrow> False | c # _ \<Rightarrow> isWordChar c)
      then [(p, s)] else [])"
| "rmatch StartAnchor (p, s) = (if p = None then [(p, s)] else [])"

text \<open>\<^verbatim>\<open>RegExp.prototype.test\<close>: is there a match starting at some index of the input.\<close>

definition regex_test :: "regex \<Rightarrow> string \<Rightarrow> bool" where
  "regex_test r s =
     list_ex (\<lambda>i. rmatch r (if i = 0 then None else Some (s ! (i - 1)), drop i s) \<noteq> [])
       [0..<Suc (length s)]"

definition greetingWords :: regex where
  "greetingWords =
     Alt (Cat (Str ''h'') (PlusChr (CHR ''i'')))
    (Alt (Cat (Str ''hell'') (PlusChr (CHR ''o'')))
    (Alt (Cat (Str ''he'') (PlusChr (CHR ''y'')))
    (Alt (Cat (Str ''y'') (PlusChr (CHR ''o'')))
    (Alt (Str ''sup'')
         (Cat (Str ''good '')
              (Alt (Str ''morning'')
              (Alt (Str ''evening'')
              (Alt (Str ''afternoon'')
                   (Str ''night'')))))))))"

definition greetingRegex :: regex where
  "greetingRegex = Cat StartAnchor (Cat greetingWords WordB)"

text \<open>
  \<^verbatim>\<open>s.split(/\s+/)\<close>: the pieces between the maximal runs of white space, the empty
  pieces at the ends included; \<open>cur\<close> is the piece being read.
\<close>

function split_ws :: "string \<Rightarrow> string \<Rightarrow> string list" where
  "split_ws cur [] = [cur]"
| "split_ws cur (c # cs) =
     (if isWhiteSpace c then cur # split_ws [] (dropWhile isWhiteSpace cs)
      else split_ws (cur @ [c]) cs)"
  by pat_completeness auto
termination
  by (relation "measure (\<lambda>(cur, s). length s)")
     (auto intro: le_imp_less_Suc length_dropWhile_le)

definition wordCount :: "string \<Rightarrow> nat" where
  "wordCount normalized = length (filter (\<lambda>w. w \<noteq> []) (split_ws [] normalized))"

datatype query_class = Greeting | Question

definition classify :: "string \<Rightarrow> query_class" where
  "classify message =
     (let normalized = toLowerCase (trim message);
          isGreeting = regex_test greetingRegex normalized
      in if isGreeting \<and> wordCount normalized \<le> 5 then Greeting else Question)"

text \<open>
  The classifier in the words of the specification. A greeting word is one of the four
  stems with its final letter written one or more times, or one of the five fixed
  phrases; the text starts with a greeting word that ends at a word boundary; the tokens
  are the maximal runs of characters that are not white space.
\<close>

definition stretched_spec :: "string \<Rightarrow> char \<Rightarrow> string \<Rightarrow> bool" where
  "stretched_spec stem c w =
     (length stem < length w \<and> take (length stem) w = stem
      \<and> list_all (\<lambda>x. x = c) (drop (length stem) w))"

definition greeting_word_spec :: "string \<Rightarrow> bool" where
  "greeting_word_spec w =
     (stretched_spec ''h'' (CHR ''i'') w \<or> stretched_spec ''hell'' (CHR ''o'') w
      \<or> stretched_spec ''he'' (CHR ''y'') w \<or> stretched_spec ''y'' (CHR ''o'') w
      \<or> w \<in> set [''sup'', ''good morning'', ''good evening'', ''good afternoon'',
                   ''good night''])"

definition word_boundary_spec :: "string \<Rightarrow> string \<Rightarrow> bool" where
  "word_boundary_spec u v =
     ((u \<noteq> [] \<and> isWordChar (last u)) \<noteq> (v \<noteq> [] \<and> isWordChar (hd v)))"

definition starts_with_greeting_spec :: "string \<Rightarrow> bool" where
  "starts_with_greeting_spec s =
     list_ex (\<lambda>k. greeting_word_spec (take k s) \<and> word_boundary_spec (take k s) (drop k s))
       [0..<Suc (length s)]"

function tokens_spec :: "string \<Rightarrow> string list" where
  "tokens_spec s =
     (let s' = dropWhile isWhiteSpace s
      in if s' = [] then []
         else takeWhile (\<lambda>c. \<not> isWhiteSpace c) s'
              # tokens_spec (dropWhile (\<lambda>c. \<not> isWhiteSpace c) s'))"
  by pat_completeness auto
termination
proof (relation "measure length")
  show "wf (measure length)" by simp
next
  fix s s' :: string
  assume s': "s' = dropWhile isWhiteSpace s" and ne: "s' \<noteq> []"
  from ne obtain c cs where c: "s' = c # cs" by (cases s') auto
  with s' have "\<not> isWhiteSpace c" by (metis hd_dropWhile list.sel(1) ne)
  then have "length (dropWhile (\<lambda>c. \<not> isWhiteSpace c) s') \<le> length cs"
    using c by (simp add: length_dropWhile_le)
  also have "length cs < length s'" using c by simp
  also have "length s' \<le> length s" using s' by (simp add: length_dropWhile_le)
  finally show "(dropWhile (\<lambda>c. \<not> isWhiteSpace c) s', s) \<in> measure length" by simp
qed

declare tokens_spec.simps [simp del]

definition classify_spec :: "string \<Rightarrow> query_class" where
  "classify_spec message =
     (let normalized = toLowerCase (trim message)
      in if starts_with_greeting_spec normalized \<and> length (tokens_spec normalized) \<le> 5
         then Greeting else Question)"

subsection \<open>Context assembly\<close>

text \<open>
  \<^verbatim>\<open>
  const contextText = topK
    .map((d, i) =>
      `[#${i + 1} | ${d.sourceType}:${d.sourceName} | score=${d.score.toFixed(3)}]\n${d.text}`)
    .join("\n\n");
  \<close>
\<close>

definition contextEntry :: "scored \<Rightarrow> nat \<Rightarrow> string" where
  "contextEntry d i =
     ''[#'' @ natToString (i + 1) @ '' | '' @ sourceType d @ '':'' @ sourceName d
     @ '' | score='' @ toFixed3 (score d) @ '']'' @ [nl] @ chunk_text d"

definition contextText :: "scored list \<Rightarrow> string" where
  "contextText topK =
     join [nl, nl] (map (\<lambda>(i, d). contextEntry d i) (enumerate 0 topK))"

text \<open>
  The in-memory server builds the block in a loop:
  \<^verbatim>\<open>
  let contextText = "";
  for (let i = 0; i < topK.length; i++) {
    const d = topK[i];
    contextText += "[#" + (i + 1) + " | " + d.sourceType + ":" + d.sourceName +
      " | score=" + d.score.toFixed(3) + "]\n" + d.text + "\n\n";
  }
  \<close>
\<close>

function contextText_loop :: "scored list \<Rightarrow> nat \<Rightarrow> string \<Rightarrow> string" where
  "contextText_loop topK i ctx =
     (if i < length topK
      then contextText_loop topK (Suc i)
             (ctx @ contextEntry (topK ! i) i @ [nl, nl])
      else ctx)"
  by pat_completeness auto
termination
  by (relation "measure (\<lambda>(topK, i, acc). length topK - i)") auto

declare contextText_loop.simps [simp del]

definition contextText_mem :: "scored list \<Rightarrow> string" where
  "contextText_mem topK = contextText_loop topK 0 []"

text \<open>
  The block in the words of the specification: one section per candidate, ranks counted
  from \<open>r\<close>, a blank line between two consecutive sections and nothing after the last.
\<close>

definition section_spec :: "nat \<Rightarrow> scored \<Rightarrow> string" where
  "section_spec r d =
     ''[#'' @ natToString r @ '' | '' @ sourceType d @ '':'' @ sourceName d
     @ '' | score='' @ toFixed3 (score d) @ '']'' @ [nl] @ chunk_text d"

fun context_block_spec :: "nat \<Rightarrow> scored list \<Rightarrow> string" where
  "context_block_spec r [] = []"
| "context_block_spec r [d] = section_spec r d"
| "context_block_spec r (d # d' # ds) =
     section_spec r d @ [nl] @ [nl] @ context_block_spec (Suc r) (d' # ds)"

section \<open>Request handlers\<close>

text \<open>
  The handlers talk to three collaborators: the embedding model, the chat model and the
  chunk store. Their answers are parameters of the model (\<open>env\<close>); every call a handler
  makes is appended to the log \<open>calls\<close> of the state, so that what a handler did is a
  value. A collaborator either returns or throws (the left summand).
\<close>

datatype exn = Exn (message: "string option")   \<comment> \<open>a thrown error and its \<^verbatim>\<open>message\<close>\<close>

text \<open>
  The two prompts are fixed instruction templates around the user's message and, for
  the retrieval prompt, the context block; only these parts are kept.
\<close>

datatype prompt = GreetPrompt string | RagPrompt string string

datatype embed_response =
    NoEmbedding            \<comment> \<open>the response has no field \<^verbatim>\<open>embedding\<close>\<close>
  | NoValues               \<comment> \<open>\<^verbatim>\<open>embedding.values\<close> is absent\<close>
  | Values "jsnum list"

datatype call =
    BatchEmbedContents "string list"
  | EmbedContent string
  | GenerateContent prompt
  | CollectionGet
  | BatchCommit "chunk list"

record env =
  GEMINI_API_KEY :: "string option"
  batchEmbedContents :: "string list \<Rightarrow> exn + embedding_field list option"
  embedContent :: "string \<Rightarrow> exn + embed_response"
  generateContent :: "prompt \<Rightarrow> exn + string option"
  dateNow :: "nat \<Rightarrow> int"
  newDocId :: "nat \<Rightarrow> string"
  collectionGet :: "chunk list \<Rightarrow> exn + chunk list"
  batchCommit :: "chunk list \<Rightarrow> exn option"

text \<open>
  \<open>batchEmbedContents\<close> answers with the field \<^verbatim>\<open>embeddings\<close> (absent: \<open>None\<close>), one
  \<^verbatim>\<open>values\<close> per item; there \<open>Missing\<close> also stands for a falsy value and \<open>NotArray\<close> for
  a truthy value that is not an array. \<open>generateContent\<close> answers with the text of the
  first part of the first candidate, if the response has one. \<open>dateNow i\<close> is the clock
  when chunk \<open>i\<close> of a request is stored, \<open>newDocId i\<close> the identifier Firestore gives it.
\<close>

record world =
  ragChunks :: "chunk list"    \<comment> \<open>the array \<^verbatim>\<open>ragChunks\<close>, or the collection \<^verbatim>\<open>rag_chunks\<close>\<close>
  nextId :: nat
  calls :: "call list"

record ingest_body =
  req_text :: "string option"
  req_sourceType :: "string option"
  req_sourceName :: "string option"

record chat_body =
  req_message :: "string option"

text \<open>
  A field of a request body is absent (\<open>None\<close>) or a string; other JSON values are not
  modelled.
\<close>

record top_chunk =
  tc_id :: string
  tc_sourceType :: string
  tc_sourceName :: string
  tc_score :: jsnum

datatype response =
    Status nat string                 \<comment> \<open>\<^verbatim>\<open>res.status(n).send(body)\<close>\<close>
  | IngestOk nat                      \<comment> \<open>\<^verbatim>\<open>res.json({ ok: true, chunks: n })\<close>\<close>
  | ChatOk string "top_chunk list"    \<comment> \<open>\<^verbatim>\<open>res.json({ answer, topChunks })\<close>\<close>
  | NoResponse                        \<comment> \<open>the handler does not return\<close>

text \<open>The two families of error responses.\<close>

definition is_client_error :: "response \<Rightarrow> bool" where
  "is_client_error r =
     (case r of Status n body \<Rightarrow> 400 \<le> n \<and> n < 500 \<and> body \<noteq> [] | _ \<Rightarrow> False)"

definition is_server_error :: "response \<Rightarrow> bool" where
  "is_server_error r =
     (case r of Status n body \<Rightarrow> 500 \<le> n \<and> n < 600 \<and> body \<noteq> [] | _ \<Rightarrow> False)"

definition logCall :: "call \<Rightarrow> world \<Rightarrow> world" where
  "logCall c w = w\<lparr>calls := calls w @ [c]\<rparr>"

text \<open>\<^verbatim>\<open>x || d\<close> on an optional string: the default replaces an absent or empty one.\<close>

definition orElse :: "string option \<Rightarrow> string \<Rightarrow> string" where
  "orElse x d = (case x of None \<Rightarrow> d | Some s \<Rightarrow> if s = [] then d else s)"

text \<open>\<^verbatim>\<open>!x || !String(x).trim()\<close>, and \<^verbatim>\<open>!x || !x.trim()\<close>.\<close>

definition blank :: "string option \<Rightarrow> bool" where
  "blank x = (case x of None \<Rightarrow> True | Some s \<Rightarrow> s = [] \<or> trim s = [])"

text \<open>\<^verbatim>\<open>!GEMINI_API_KEY || GEMINI_API_KEY.length < 20\<close>\<close>

definition keyNotConfigured :: "env \<Rightarrow> bool" where
  "keyNotConfigured e =
     (case GEMINI_API_KEY e of None \<Rightarrow> True | Some k \<Rightarrow> k = [] \<or> length k < 20)"

definition toTopChunk :: "scored \<Rightarrow> top_chunk" where
  "toTopChunk d =
     \<lparr>tc_id = chunk_id d, tc_sourceType = sourceType d, tc_sourceName = sourceName d,
      tc_score = score d\<rparr>"

subsection \<open>The in-memory server\<close>

text \<open>
  The loop of \<^verbatim>\<open>/ingestText\<close> that stores the chunks:
  \<^verbatim>\<open>
  for (let i = 0; i < chunks.length; i++) {
    const chunk = chunks[i];
    const emb = embeddings[i] && Array.isArray(embeddings[i].values) ? embeddings[i].values : [];
    ragChunks.push({ id: String(nextId++), text: chunk, embedding: emb,
                     sourceType, sourceName, createdAt: Date.now() });
  }
  \<close>
\<close>

definition embeddingAt_mem :: "embedding_field list \<Rightarrow> nat \<Rightarrow> embedding_field" where
  "embeddingAt_mem embeddings i =
     (if i < length embeddings
      then (case embeddings ! i of Vec v \<Rightarrow> Vec v | _ \<Rightarrow> Vec [])
      else Vec [])"

function push_loop ::
  "env \<Rightarrow> string \<Rightarrow> string \<Rightarrow> string list \<Rightarrow> embedding_field list \<Rightarrow> nat \<Rightarrow> world \<Rightarrow> world"
  where
  "push_loop e sType sName chunks embeddings i w =
     (if i < length chunks
      then push_loop e sType sName chunks embeddings (Suc i)
             (w\<lparr>ragChunks := ragChunks w @
                   [\<lparr>chunk_id = natToString (nextId w), chunk_text = chunks ! i,
                     embedding = embeddingAt_mem embeddings i,
                     sourceType = sType, sourceName = sName, createdAt = dateNow e i\<rparr>],
                nextId := Suc (nextId w)\<rparr>)
      else w)"
  by pat_completeness auto
termination
  by (relation "measure (\<lambda>(e, sType, sName, chunks, embeddings, i, w). length chunks - i)")
     auto

declare push_loop.simps [simp del]

definition ingestText_mem :: "env \<Rightarrow> ingest_body \<Rightarrow> world \<Rightarrow> response \<times> world" where
  "ingestText_mem e body w =
     (let sType = orElse (req_sourceType body) ''doc'';
          sName = orElse (req_sourceName body) ''unknown''
      in if blank (req_text body) then (Status 400 ''Missing text'', w)
         else if keyNotConfigured e
         then (Status 500 ''GEMINI_API_KEY is not configured on the server'', w)
         else (case chunkText_mem (orElse (req_text body) []) None of
                 None \<Rightarrow> (NoResponse, w)
               | Some chunks \<Rightarrow>
                   (let w1 = logCall (BatchEmbedContents chunks) w
                    in case batchEmbedContents e chunks of
                         Inl err \<Rightarrow>
                           (Status 500 (''Error ingesting text on server: ''
                                        @ orElse (message err) ''unknown error''), w1)
                       | Inr batchRes \<Rightarrow>
                           (let embeddings = (case batchRes of None \<Rightarrow> [] | Some es \<Rightarrow> es)
                            in (IngestOk (length chunks),
                                push_loop e sType sName chunks embeddings 0 w1)))))"

text \<open>
  The fallback answers of the source contain a typographic apostrophe, written \<open>'\<close>
  here.
\<close>

definition greetFallback_mem :: string where
  "greetFallback_mem =
     ''Hi! I'' @ [CHR 0x27] @ ''m your multimodal RAG assistant. You can upload text, images or audio and then ask questions about them.''"

definition answerOr :: "string option \<Rightarrow> string \<Rightarrow> string" where
  "answerOr r fallback = orElse r fallback"

definition chatRag_mem :: "env \<Rightarrow> chat_body \<Rightarrow> world \<Rightarrow> response \<times> world" where
  "chatRag_mem e body w =
     (if blank (req_message body) then (Status 400 ''Missing message'', w)
      else if keyNotConfigured e
      then (Status 500 ''GEMINI_API_KEY is not configured on the server'', w)
      else
        (let msg = orElse (req_message body) []
         in if classify msg = Greeting
            then
              (let w1 = logCall (GenerateContent (GreetPrompt msg)) w
               in case generateContent e (GreetPrompt msg) of
                    Inl err \<Rightarrow>
                      (Status 500 (''Error generating answer: ''
                                   @ orElse (message err) ''unknown error''), w1)
                  | Inr greetResp \<Rightarrow> (ChatOk (answerOr greetResp greetFallback_mem) [], w1))
            else
              (let w1 = logCall (EmbedContent msg) w
               in case embedContent e msg of
                    Inl err \<Rightarrow>
                      (Status 500 (''Error generating answer: ''
                                   @ orElse (message err) ''unknown error''), w1)
                  | Inr embRes \<Rightarrow>
                      (let queryEmbedding = (case embRes of Values v \<Rightarrow> v | _ \<Rightarrow> []);
                           topK = rank queryEmbedding (ragChunks w1);
                           ragPrompt = RagPrompt msg (contextText_mem topK);
                           w2 = logCall (GenerateContent ragPrompt) w1
                       in case generateContent e ragPrompt of
                            Inl err \<Rightarrow>
                              (Status 500 (''Error generating answer: ''
                                           @ orElse (message err) ''unknown error''), w2)
                          | Inr ragResp \<Rightarrow>
                              (ChatOk (answerOr ragResp ''(no answer)'')
                                 (map toTopChunk topK), w2)))))"

subsection \<open>The Firestore server\<close>

text \<open>
  \<^verbatim>\<open>functions/server.js\<close>; the Cloud Functions file answers \<^verbatim>\<open>OPTIONS\<close> and
  requests that are not \<^verbatim>\<open>POST\<close> first and is the same from there on. The key is read
  when the module loads and only a warning is printed when it is absent;
  \<^verbatim>\<open>getGeminiClients\<close> builds the two model objects from it and calls nothing.
  \<^verbatim>\<open>
  chunks.forEach((chunk, i) => {
    const emb = embeddings[i]?.values || [];
    const docRef = col.doc();
    batch.set(docRef, { text: chunk, embedding: emb, sourceType, sourceName,
                        createdAt: Date.now() });
  });
  await batch.commit();
  \<close>
\<close>

definition embeddingAt :: "embedding_field list \<Rightarrow> nat \<Rightarrow> embedding_field" where
  "embeddingAt embeddings i =
     (if i < length embeddings
      then (case embeddings ! i of Missing \<Rightarrow> Vec [] | v \<Rightarrow> v)
      else Vec [])"

definition batchDocs ::
  "env \<Rightarrow> string \<Rightarrow> string \<Rightarrow> string list \<Rightarrow> embedding_field list \<Rightarrow> chunk list" where
  "batchDocs e sType sName chunks embeddings =
     map (\<lambda>(i, chunk).
            \<lparr>chunk_id = newDocId e i, chunk_text = chunk,
             embedding = embeddingAt embeddings i,
             sourceType = sType, sourceName = sName, createdAt = dateNow e i\<rparr>)
         (enumerate 0 chunks)"

text \<open>
  Here the defaults of \<^verbatim>\<open>sourceType\<close> and \<^verbatim>\<open>sourceName\<close> are those of a destructuring
  pattern: they replace an absent field only.
\<close>

definition ingestText :: "env \<Rightarrow> ingest_body \<Rightarrow> world \<Rightarrow> response \<times> world" where
  "ingestText e body w =
     (let sType = (case req_sourceType body of None \<Rightarrow> ''doc'' | Some s \<Rightarrow> s);
          sName = (case req_sourceName body of None \<Rightarrow> ''unknown'' | Some s \<Rightarrow> s)
      in if blank (req_text body) then (Status 400 ''Missing text'', w)
         else (case chunkText (orElse (req_text body) []) None of
                 None \<Rightarrow> (NoResponse, w)
               | Some chunks \<Rightarrow>
                   (let w1 = logCall (BatchEmbedContents chunks) w
                    in case batchEmbedContents e chunks of
                         Inl err \<Rightarrow> (Status 500 ''Error ingesting text'', w1)
                       | Inr batchRes \<Rightarrow>
                           (let embeddings = (case batchRes of None \<Rightarrow> [] | Some es \<Rightarrow> es);
                                docs = batchDocs e sType sName chunks embeddings;
                                w2 = logCall (BatchCommit docs) w1
                            in case batchCommit e docs of
                                 Some err \<Rightarrow> (Status 500 ''Error ingesting text'', w2)
                               | None \<Rightarrow>
                                   (IngestOk (length chunks),
                                    w2\<lparr>ragChunks := ragChunks w2 @ docs\<rparr>)))))"

text \<open>
  Scoring in \<^verbatim>\<open>functions/server.js\<close> takes \<^verbatim>\<open>embRes.embedding.values\<close> as it is. When
  it is absent, \<^verbatim>\<open>cosineSimilarity\<close> throws a \<^verbatim>\<open>TypeError\<close> at \<^verbatim>\<open>a.length\<close> for a
  record whose embedding is an array (the result \<open>None\<close>), and a record whose embedding
  is not an array scores 0. \<^verbatim>\<open>docs.map\<close> stops at the first record that throws.
\<close>

definition scoreFs :: "jsnum list option \<Rightarrow> chunk \<Rightarrow> jsnum option" where
  "scoreFs queryEmbedding d =
     (case embedding d of
        Vec v \<Rightarrow> (case queryEmbedding of
                    Some q \<Rightarrow> Some (cosineSimilarity q v)
                  | None \<Rightarrow> None)
      | _ \<Rightarrow> Some (Num 0))"

fun scoredFs :: "jsnum list option \<Rightarrow> chunk list \<Rightarrow> scored list option" where
  "scoredFs queryEmbedding [] = Some []"
| "scoredFs queryEmbedding (d # ds) =
     (case scoreFs queryEmbedding d of
        None \<Rightarrow> None
      | Some s \<Rightarrow>
          (case scoredFs queryEmbedding ds of
             None \<Rightarrow> None
           | Some rest \<Rightarrow> Some (with_score d s # rest)))"

definition greetFallback :: string where
  "greetFallback = ''Hi! I'' @ [CHR 0x27] @ ''m your multimodal RAG assistant.''"

definition chatRag :: "env \<Rightarrow> chat_body \<Rightarrow> world \<Rightarrow> response \<times> world" where
  "chatRag e body w =
     (if blank (req_message body) then (Status 400 ''Missing message'', w)
      else
        (let msg = orElse (req_message body) []
         in if classify msg = Greeting
            then
              (let w1 = logCall (GenerateContent (GreetPrompt msg)) w
               in case generateContent e (GreetPrompt msg) of
                    Inl err \<Rightarrow> (Status 500 ''Error generating answer'', w1)
                  | Inr resp \<Rightarrow> (ChatOk (answerOr resp greetFallback) [], w1))
            else
              (let w1 = logCall (EmbedContent msg) w
               in case embedContent e msg of
                    Inl err \<Rightarrow> (Status 500 ''Error generating answer'', w1)
                  | Inr NoEmbedding \<Rightarrow> (Status 500 ''Error generating answer'', w1)
                  | Inr embRes \<Rightarrow>
                      (let queryEmbedding = (case embRes of Values v \<Rightarrow> Some v | _ \<Rightarrow> None);
                           w2 = logCall CollectionGet w1
                       in case collectionGet e (ragChunks w2) of
                            Inl err \<Rightarrow> (Status 500 ''Error generating answer'', w2)
                          | Inr docs \<Rightarrow>
                              (case scoredFs queryEmbedding docs of
                                 None \<Rightarrow> (Status 500 ''Error generating answer'', w2)
                               | Some scored \<Rightarrow>
                                   (let topK = topK_of scored;
                                        prompt = RagPrompt msg (contextText topK);
                                        w3 = logCall (GenerateContent prompt) w2
                                    in case generateContent e prompt of
                                         Inl err \<Rightarrow> (Status 500 ''Error generating answer'', w3)
                                       | Inr resp \<Rightarrow>
                                           (ChatOk (answerOr resp ''(no answer)'')
                                              (map toTopChunk topK), w3)))))))"

subsection \<open>The Cloud Functions\<close>

text \<open>
  The two files of \<^verbatim>\<open>src/unnamed/part_001\<close> export \<^verbatim>\<open>ingestText\<close> and \<^verbatim>\<open>chatRag\<close> as
  HTTPS functions. Each starts with
  \<^verbatim>\<open>
  if (req.method === "OPTIONS") { res.status(204).send(""); return; }
  if (req.method !== "POST") { res.status(405).send("Use POST"); return; }
  \<close>
  and goes on as the handler of \<^verbatim>\<open>functions/server.js\<close> does. \<^verbatim>\<open>ingestText\<close> is the
  same in both files; \<^verbatim>\<open>chatRag\<close> of the first file differs from the Firestore server
  in the fallback greeting only, and \<^verbatim>\<open>chatRag\<close> of the second file has no classifier
  and no greeting branch: every message is embedded and ranked.
\<close>

definition onRequest :: "string \<Rightarrow> world \<Rightarrow> response \<times> world \<Rightarrow> response \<times> world" where
  "onRequest method w handler =
     (if method = ''OPTIONS'' then (Status 204 [], w)
      else if method \<noteq> ''POST'' then (Status 405 ''Use POST'', w)
      else handler)"

definition ingestText_fn ::
  "env \<Rightarrow> string \<Rightarrow> ingest_body \<Rightarrow> world \<Rightarrow> response \<times> world" where
  "ingestText_fn e method body w = onRequest method w (ingestText e body w)"

definition chatRag_fn :: "env \<Rightarrow> string \<Rightarrow> chat_body \<Rightarrow> world \<Rightarrow> response \<times> world" where
  "chatRag_fn e method body w =
     onRequest method w
       (if blank (req_message body) then (Status 400 ''Missing message'', w)
        else
          (let msg = orElse (req_message body) []
           in if classify msg = Greeting
              then
                (let w1 = logCall (GenerateContent (GreetPrompt msg)) w
                 in case generateContent e (GreetPrompt msg) of
                      Inl err \<Rightarrow> (Status 500 ''Error generating answer'', w1)
                    | Inr resp \<Rightarrow> (ChatOk (answerOr resp greetFallback_mem) [], w1))
              else
                (let w1 = logCall (EmbedContent msg) w
                 in case embedContent e msg of
                      Inl err \<Rightarrow> (Status 500 ''Error generating answer'', w1)
                    | Inr NoEmbedding \<Rightarrow> (Status 500 ''Error generating answer'', w1)
                    | Inr embRes \<Rightarrow>
                        (let queryEmbedding = (case embRes of Values v \<Rightarrow> Some v | _ \<Rightarrow> None);
                             w2 = logCall CollectionGet w1
                         in case collectionGet e (ragChunks w2) of
                              Inl err \<Rightarrow> (Status 500 ''Error generating answer'', w2)
                            | Inr docs \<Rightarrow>
                                (case scoredFs queryEmbedding docs of
                                   None \<Rightarrow> (Status 500 ''Error generating answer'', w2)
                                 | Some scored \<Rightarrow>
                                     (let topK = topK_of scored;
                                          prompt = RagPrompt msg (contextText topK);
                                          w3 = logCall (GenerateContent prompt) w2
                                      in case generateContent e prompt of
                                           Inl err \<Rightarrow>
                                             (Status 500 ''Error generating answer'', w3)
                                         | Inr resp \<Rightarrow>
                                             (ChatOk (answerOr resp ''(no answer)'')
                                                (map toTopChunk topK), w3)))))))"

definition chatRag_fn_old ::
  "env \<Rightarrow> string \<Rightarrow> chat_body \<Rightarrow> world \<Rightarrow> response \<times> world" where
  "chatRag_fn_old e method body w =
     onRequest method w
       (if blank (req_message body) then (Status 400 ''Missing message'', w)
        else
          (let msg = orElse (req_message body) [];
               w1 = logCall (EmbedContent msg) w
           in case embedContent e msg of
                Inl err \<Rightarrow> (Status 500 ''Error generating answer'', w1)
              | Inr NoEmbedding \<Rightarrow> (Status 500 ''Error generating answer'', w1)
              | Inr embRes \<Rightarrow>
                  (let queryEmbedding = (case embRes of Values v \<Rightarrow> Some v | _ \<Rightarrow> None);
                       w2 = logCall CollectionGet w1
                   in case collectionGet e (ragChunks w2) of
                        Inl err \<Rightarrow> (Status 500 ''Error generating answer'', w2)
                      | Inr docs \<Rightarrow>
                          (case scoredFs queryEmbedding docs of
                             None \<Rightarrow> (Status 500 ''Error generating answer'', w2)
                           | Some scored \<Rightarrow>
                               (let topK = topK_of scored;
                                    prompt = RagPrompt msg (contextText topK);
                                    w3 = logCall (GenerateContent prompt) w2
                                in case generateContent e prompt of
                                     Inl err \<Rightarrow> (Status 500 ''Error generating answer'', w3)
                                   | Inr resp \<Rightarrow>
                                       (ChatOk (answerOr resp ''(no answer)'')
                                          (map toTopChunk topK), w3))))))"

section \<open>Example data\<close>

definition exampleDoc :: "string \<Rightarrow> embedding_field \<Rightarrow> chunk" where
  "exampleDoc i e =
     \<lparr>chunk_id = i, chunk_text = ''t'', embedding = e, sourceType = ''doc'',
      sourceName = ''n'', createdAt = 0\<rparr>"

definition exampleDocs :: "chunk list" where
  "exampleDocs =
     [exampleDoc ''a'' (Vec [Num 0, Num 1]), exampleDoc ''b'' (Vec []),
      exampleDoc ''c'' Missing, exampleDoc ''d'' (Vec [Num 2, Num 0]),
      exampleDoc ''e'' (Vec [Num (- 1), Num 0]), exampleDoc ''f'' (Vec [Num 1]),
      exampleDoc ''g'' NotArray]"

text \<open>
  Collaborators that always succeed, a server without a key, and an empty store.
\<close>

definition exampleEnv :: env where
  "exampleEnv =
     \<lparr>GEMINI_API_KEY = None,
      batchEmbedContents = (\<lambda>chunks. Inr (Some (map (\<lambda>c. Vec [Num 1, Num 0]) chunks))),
      embedContent = (\<lambda>t. Inr (Values [Num 1, Num 0])),
      generateContent = (\<lambda>p. Inr (Some ''hello'')),
      dateNow = (\<lambda>i. 0),
      newDocId = (\<lambda>i. natToString i),
      collectionGet = (\<lambda>docs. Inr docs),
      batchCommit = (\<lambda>docs. None)\<rparr>"

text \<open>The same server when the providers reject every call, as they do without a key.\<close>

definition rejectingEnv :: env where
  "rejectingEnv =
     exampleEnv
       \<lparr>batchEmbedContents := (\<lambda>chunks. Inl (Exn (Some ''API key not valid''))),
        embedContent := (\<lambda>t. Inl (Exn (Some ''API key not valid''))),
        generateContent := (\<lambda>p. Inl (Exn (Some ''API key not valid'')))\<rparr>"

definition exampleWorld :: world where
  "exampleWorld = \<lparr>ragChunks = [], nextId = 1, calls = []\<rparr>"

text \<open>
  A server with a key, a store that holds the given records, and a query whose embedding
  has a component so large that its square is beyond the doubles.
\<close>

definition configuredEnv :: env where
  "configuredEnv = exampleEnv\<lparr>GEMINI_API_KEY := Some ''0123456789abcdefghij''\<rparr>"

definition storedWorld :: "chunk list \<Rightarrow> world" where
  "storedWorld docs = \<lparr>ragChunks = docs, nextId = Suc (length docs), calls = []\<rparr>"

definition bigNumber :: jsnum where
  "bigNumber = Num (2 ^ 600)"

definition overflowEnv :: env where
  "overflowEnv = configuredEnv\<lparr>embedContent := (\<lambda>t. Inr (Values [Num 1, bigNumber]))\<rparr>"

definition overflowDocs :: "chunk list" where
  "overflowDocs =
     [exampleDoc ''b'' (Vec []), exampleDoc ''a'' (Vec [Num 0, bigNumber]),
      exampleDoc ''c'' (Vec [Num 1])]"

section \<open>Properties\<close>

subsection \<open>Double arithmetic\<close>

lemma round_even_bounds: "\<lfloor>y\<rfloor> \<le> round_even y" "round_even y \<le> \<lceil>y\<rceil>"
proof -
  show "\<lfloor>y\<rfloor> \<le> round_even y" by (simp add: round_even_def Let_def)
  show "round_even y \<le> \<lceil>y\<rceil>"
  proof (cases "y = of_int \<lfloor>y\<rfloor>")
    case True
    then have "y - of_int \<lfloor>y\<rfloor> = 0" by simp
    then have "round_even y = \<lfloor>y\<rfloor>" by (simp add: round_even_def Let_def)
    then show ?thesis by (simp add: floor_le_ceiling)
  next
    case False
    then have "\<lceil>y\<rceil> = \<lfloor>y\<rfloor> + 1" by (simp add: ceiling_altdef)
    then show ?thesis by (simp add: round_even_def Let_def)
  qed
qed

lemma round_even_of_int [simp]: "round_even (of_int n) = n"
  by (simp add: round_even_def)

lemma round_even_ge:
  assumes "of_int N \<le> y"
  shows "N \<le> round_even y"
proof -
  from assms have "N \<le> \<lfloor>y\<rfloor>" by (simp add: le_floor_iff)
  with round_even_bounds(1)[of y] show ?thesis by linarith
qed

lemma round_even_le:
  assumes "y \<le> of_int N"
  shows "round_even y \<le> N"
proof -
  from assms have "\<lceil>y\<rceil> \<le> N" by (simp add: ceiling_le_iff)
  with round_even_bounds(2)[of y] show ?thesis by linarith
qed

lemma two_powi_pos [simp]: "0 < (2::real) powi e"
  by (simp add: power_int_def)

lemma two_powi_add: "(2::real) powi (a + b) = 2 powi a * 2 powi b"
  by (rule power_int_add) simp

lemma two_powi_mono: "a \<le> b \<Longrightarrow> (2::real) powi a \<le> 2 powi b"
  by (rule power_int_increasing) simp_all

lemma floor_log2:
  assumes "0 < x"
  shows "2 powi \<lfloor>log 2 x\<rfloor> \<le> x" and "x < 2 powi (\<lfloor>log 2 x\<rfloor> + 1)"
proof -
  have "2 powr real_of_int \<lfloor>log 2 x\<rfloor> \<le> x \<and> x < 2 powr real_of_int (\<lfloor>log 2 x\<rfloor> + 1)"
  proof -
    have "(1::real) < 2" by simp
    from floor_log_eq_powr_iff[OF assms this, of "\<lfloor>log 2 x\<rfloor>"] show ?thesis by blast
  qed
  then show "2 powi \<lfloor>log 2 x\<rfloor> \<le> x" and "x < 2 powi (\<lfloor>log 2 x\<rfloor> + 1)"
    by (simp_all only: powr_real_of_int'[of 2, simplified])
qed

lemma floor_log2_ge:
  assumes "2 powi p \<le> x"
  shows "p \<le> \<lfloor>log 2 x\<rfloor>"
proof -
  have x: "0 < x" using assms two_powi_pos[of p] by linarith
  have "x < 2 powi (\<lfloor>log 2 x\<rfloor> + 1)" by (rule floor_log2(2)[OF x])
  with assms have "(2::real) powi p < 2 powi (\<lfloor>log 2 x\<rfloor> + 1)" by linarith
  then have "p < \<lfloor>log 2 x\<rfloor> + 1"
    by (metis two_powi_mono not_le)
  then show ?thesis by simp
qed

lemma floor_log2_less:
  assumes "0 < x" "x < 2 powi p"
  shows "\<lfloor>log 2 x\<rfloor> < p"
proof -
  have "2 powi \<lfloor>log 2 x\<rfloor> \<le> x" by (rule floor_log2(1)[OF assms(1)])
  with assms have "(2::real) powi \<lfloor>log 2 x\<rfloor> < 2 powi p" by linarith
  then show ?thesis by (metis two_powi_mono not_le)
qed

lemma ulp_exp_ge: "emin \<le> ulp_exp x"
  by (simp add: ulp_exp_def)


text \<open>The shape of every result of rounding.\<close>

lemma fl_round_cases:
  obtains (zero) "x = 0" "fl_round x = Num 0"
  | (inf) "x \<noteq> 0" "huge \<le> \<bar>of_int (round_even (x / 2 powi ulp_exp x)) * 2 powi ulp_exp x\<bar>"
      "fl_round x = (if 0 < x then PosInfinity else NegInfinity)"
  | (fin) "x \<noteq> 0" "\<bar>of_int (round_even (x / 2 powi ulp_exp x)) * 2 powi ulp_exp x\<bar> < huge"
      "fl_round x = Num (of_int (round_even (x / 2 powi ulp_exp x)) * 2 powi ulp_exp x)"
  by (cases "x = 0"; cases "huge \<le> \<bar>of_int (round_even (x / 2 powi ulp_exp x)) * 2 powi ulp_exp x\<bar>")
     (simp_all add: fl_round_def Let_def not_le)

lemma fl_round_not_NaN [simp]: "fl_round x \<noteq> NaN"
  by (cases x rule: fl_round_cases) (simp_all split: if_splits)

lemma fl_round_grid:
  assumes "fl_round x = Num y"
  shows "\<exists>k::int. y = of_int k * 2 powi emin"
proof (cases x rule: fl_round_cases)
  case zero
  with assms have "y = of_int 0 * 2 powi emin" by simp
  then show ?thesis ..
next
  case inf
  with assms show ?thesis by (simp split: if_splits)
next
  case fin
  define e where "e = ulp_exp x"
  define k where "k = round_even (x / 2 powi e)"
  have y: "y = of_int k * 2 powi e" using fin(3) assms by (simp add: e_def k_def)
  have "emin \<le> e" by (simp add: e_def ulp_exp_ge)
  then have "(2::real) powi e = 2 ^ nat (e - emin) * 2 powi emin"
    using two_powi_add[of "e - emin" emin] by (simp add: power_int_def)
  then have "y = of_int (k * 2 ^ nat (e - emin)) * 2 powi emin"
    using y by simp
  then show ?thesis ..
qed

lemma fl_round_nonneg:
  assumes "0 \<le> x"
  shows "fl_round x = PosInfinity \<or> (\<exists>y. fl_round x = Num y \<and> 0 \<le> y)"
proof (cases x rule: fl_round_cases)
  case zero
  then show ?thesis by simp
next
  case inf
  with assms show ?thesis by simp
next
  case fin
  have "0 \<le> x / 2 powi ulp_exp x" using assms by simp
  then have "of_int 0 \<le> x / 2 powi ulp_exp x" by simp
  then have "0 \<le> round_even (x / 2 powi ulp_exp x)" by (rule round_even_ge)
  then show ?thesis using fin(3) by simp
qed

lemma fl_round_nonpos:
  assumes "x \<le> 0"
  shows "fl_round x = NegInfinity \<or> (\<exists>y. fl_round x = Num y \<and> y \<le> 0)"
proof (cases x rule: fl_round_cases)
  case zero
  then show ?thesis by simp
next
  case inf
  with assms show ?thesis by simp
next
  case fin
  have "x / 2 powi ulp_exp x \<le> 0" using assms by (simp add: divide_nonpos_pos)
  then have "x / 2 powi ulp_exp x \<le> of_int 0" by simp
  then have "round_even (x / 2 powi ulp_exp x) \<le> 0" by (rule round_even_le)
  then have "of_int (round_even (x / 2 powi ulp_exp x)) * 2 powi ulp_exp x \<le> (0::real)"
    by (simp add: mult_le_0_iff)
  then show ?thesis using fin(3) by simp
qed

lemma fl_round_lower:
  assumes x: "2 powi p \<le> x" and p: "emin \<le> p"
  shows "fl_round x = PosInfinity \<or> (\<exists>y. fl_round x = Num y \<and> 2 powi p \<le> y)"
proof -
  have x0: "0 < x" using x two_powi_pos[of p] by linarith
  define L where "L = \<lfloor>log 2 x\<rfloor>"
  define e where "e = ulp_exp x"
  define k where "k = round_even (x / 2 powi e)"
  have e: "e = max (L - 52) emin" using x0 by (simp add: e_def ulp_exp_def L_def)
  have pL: "p \<le> L" unfolding L_def by (rule floor_log2_ge[OF x])
  have Lx: "2 powi L \<le> x" unfolding L_def by (rule floor_log2(1)[OF x0])
  have low: "(2::real) powi p \<le> of_int k * 2 powi e"
  proof (cases "e \<le> p")
    case True
    have "(2::real) powi p = 2 ^ nat (p - e) * 2 powi e"
      using True two_powi_add[of "p - e" e] by (simp add: power_int_def)
    then have "of_int (2 ^ nat (p - e)) \<le> x / 2 powi e"
      using x by (simp add: pos_le_divide_eq)
    then have "2 ^ nat (p - e) \<le> k" unfolding k_def by (rule round_even_ge)
    then have "(of_int (2 ^ nat (p - e))::real) \<le> of_int k" by (simp only: of_int_le_iff)
    then have "(of_int (2 ^ nat (p - e))::real) * 2 powi e \<le> of_int k * 2 powi e"
      by (rule mult_right_mono) simp
    then show ?thesis
      using \<open>(2::real) powi p = 2 ^ nat (p - e) * 2 powi e\<close> by simp
  next
    case False
    then have pe: "p < e" by simp
    then have eL: "e = L - 52" using e p by simp
    have "(2::real) powi L = 2 ^ 52 * 2 powi e"
      using two_powi_add[of 52 e] eL by simp
    then have "4503599627370496 * 2 powi e \<le> x" using Lx by simp
    moreover have "0 < (2::real) powi e" by simp
    ultimately have "2 powi e \<le> x" by linarith
    then have "of_int 1 \<le> x / 2 powi e"
      by (simp add: pos_le_divide_eq)
    then have "1 \<le> k" unfolding k_def by (rule round_even_ge)
    then have "(1::real) \<le> of_int k" by simp
    then have "(1::real) * 2 powi e \<le> of_int k * 2 powi e"
      by (rule mult_right_mono) simp
    then have a: "(2::real) powi e \<le> of_int k * 2 powi e" by (simp only: mult_1)
    have b: "(2::real) powi p \<le> 2 powi e" using pe by (intro two_powi_mono) simp
    from b a show ?thesis by (rule order_trans)
  qed
  show ?thesis
  proof (cases x rule: fl_round_cases)
    case zero
    with x0 show ?thesis by simp
  next
    case inf
    with x0 show ?thesis by simp
  next
    case fin
    then show ?thesis using low by (simp add: e_def k_def)
  qed
qed

lemma fl_round_overflow:
  assumes "huge \<le> x"
  shows "fl_round x = PosInfinity"
proof -
  have h: "huge = 2 powi 1024" by (simp add: huge_def)
  have "emin \<le> 1024" by (simp add: emin_def)
  from fl_round_lower[OF assms[unfolded h] this]
  show ?thesis
  proof
    assume "\<exists>y. fl_round x = Num y \<and> 2 powi 1024 \<le> y"
    then obtain y where y: "fl_round x = Num y" "huge \<le> y" unfolding h by blast
    have hp: "0 < huge" by (simp add: huge_def)
    from y hp show ?thesis
      by (cases x rule: fl_round_cases) (simp_all split: if_splits)
  qed
qed

lemma fl_round_exact:
  assumes x: "x = of_int m * 2 powi q" and m: "\<bar>m\<bar> < 2 ^ 53" and q: "emin \<le> q"
    and h: "\<bar>x\<bar> < huge"
  shows "fl_round x = Num x"
proof (cases "x = 0")
  case True
  then show ?thesis by (simp add: fl_round_def)
next
  case False
  define e where "e = ulp_exp x"
  have ax: "0 < \<bar>x\<bar>" using False by simp
  have "\<bar>x\<bar> = of_int \<bar>m\<bar> * 2 powi q" by (simp add: x abs_mult)
  also have "\<dots> < 2 ^ 53 * 2 powi q"
  proof (rule mult_strict_right_mono)
    have "(of_int \<bar>m\<bar> :: real) < of_int (2 ^ 53)" using m by (simp only: of_int_less_iff)
    then show "(of_int \<bar>m\<bar> :: real) < 2 ^ 53" by simp
  qed simp
  also have "\<dots> = 2 powi (53 + q)" using two_powi_add[of 53 q] by simp
  finally have "\<lfloor>log 2 \<bar>x\<bar>\<rfloor> < 53 + q" by (rule floor_log2_less[OF ax])
  then have eq: "e \<le> q" using q by (simp add: e_def ulp_exp_def)
  have "(2::real) powi q = 2 ^ nat (q - e) * 2 powi e"
    using eq two_powi_add[of "q - e" e] by (simp add: power_int_def)
  then have "x / 2 powi e = of_int (m * 2 ^ nat (q - e))" by (simp add: x)
  then have "round_even (x / 2 powi e) = m * 2 ^ nat (q - e)" by (simp only: round_even_of_int)
  then have "of_int (round_even (x / 2 powi e)) * 2 powi e = x"
    using \<open>(2::real) powi q = 2 ^ nat (q - e) * 2 powi e\<close> by (simp add: x)
  then show ?thesis using False h by (simp add: fl_round_def Let_def e_def)
qed

lemma fl_round_of_int:
  assumes "\<bar>m\<bar> < 2 ^ 53"
  shows "fl_round (of_int m) = Num (of_int m)"
proof (rule fl_round_exact[where m = m and q = 0])
  show "real_of_int m = of_int m * 2 powi 0" by simp
  show "\<bar>m\<bar> < 2 ^ 53" by fact
  show "emin \<le> 0" by (simp add: emin_def)
  have "\<bar>real_of_int m\<bar> = of_int \<bar>m\<bar>" by simp
  also have "\<dots> < of_int (2 ^ 53)" using assms by (simp only: of_int_less_iff)
  also have "\<dots> \<le> huge" by (simp add: huge_def)
  finally show "\<bar>real_of_int m\<bar> < huge" .
qed

lemma fl_round_simps [simp]:
  "fl_round 0 = Num 0" "fl_round 1 = Num 1" "fl_round (- 1) = Num (- 1)"
  "numeral n < (2::int) ^ 53 \<Longrightarrow> fl_round (numeral n) = Num (numeral n)"
  "numeral n < (2::int) ^ 53 \<Longrightarrow> fl_round (- numeral n) = Num (- numeral n)"
  using fl_round_of_int[of 0] fl_round_of_int[of 1] fl_round_of_int[of "- 1"]
    fl_round_of_int[of "numeral n"] fl_round_of_int[of "- numeral n"]
  by simp_all

lemma js_mul_commute: "js_mul x y = js_mul y x"
  by (cases x; cases y) (simp_all add: mult.commute)

lemma fl_round_underflow:
  assumes "\<bar>x\<bar> < 2 powi (emin - 1)"
  shows "fl_round x = Num 0"
proof (cases "x = 0")
  case True
  then show ?thesis by (simp add: fl_round_def)
next
  case False
  then have ax: "0 < \<bar>x\<bar>" by simp
  have "\<lfloor>log 2 \<bar>x\<bar>\<rfloor> < emin - 1" by (rule floor_log2_less[OF ax assms])
  then have e: "ulp_exp x = emin" by (simp add: ulp_exp_def)
  have h: "(2::real) powi emin = 2 * 2 powi (emin - 1)"
    using two_powi_add[of 1 "emin - 1"] by simp
  define y where "y = x / 2 powi emin"
  have "\<bar>y\<bar> = \<bar>x\<bar> / 2 powi emin" by (simp add: y_def)
  also have "\<dots> < 1 / 2"
    using assms by (simp add: h pos_divide_less_eq)
  finally have y: "\<bar>y\<bar> < 1 / 2" .
  have "round_even y = 0"
  proof (cases "0 \<le> y")
    case True
    with y have "\<lfloor>y\<rfloor> = 0" by (simp add: floor_eq_iff)
    with y True show ?thesis by (simp add: round_even_def Let_def)
  next
    case False
    with y have "\<lfloor>y\<rfloor> = - 1" by (simp add: floor_eq_iff)
    with y False show ?thesis by (simp add: round_even_def Let_def)
  qed
  then show ?thesis using False by (simp add: fl_round_def Let_def e y_def huge_def)
qed

lemma fl_round_positive_iff:
  assumes "x = of_int k * 2 powi emin"
  shows "js_positive (fl_round x) \<longleftrightarrow> 0 < x"
proof (cases "0 < x")
  case True
  moreover have p: "0 < (2::real) powi emin" by simp
  ultimately have "0 < (of_int k :: real)" using assms by (simp add: zero_less_mult_iff not_less[symmetric] less_imp_le)
  then have "0 < k" by simp
  then have "(1::real) \<le> of_int k" by simp
  then have "(1::real) * 2 powi emin \<le> of_int k * 2 powi emin"
    by (rule mult_right_mono) simp
  then have "2 powi emin \<le> x" using assms by (simp only: mult_1)
  from fl_round_lower[OF this order_refl] obtain y
    where y: "fl_round x = PosInfinity \<or> fl_round x = Num y \<and> 2 powi emin \<le> y" by blast
  have "js_positive (fl_round x)"
  proof (cases "fl_round x = PosInfinity")
    case True
    then show ?thesis by simp
  next
    case False
    with y have "fl_round x = Num y" and "2 powi emin \<le> y" by simp_all
    moreover from this(2) p have "0 < y" by linarith
    ultimately show ?thesis by simp
  qed
  with True show ?thesis by simp
next
  case False
  then have "x \<le> 0" by simp
  from fl_round_nonpos[OF this] have "\<not> js_positive (fl_round x)" by auto
  with False show ?thesis by simp
qed

text \<open>How to evaluate a rounding: bracket the exact value.\<close>

lemma round_even_near:
  assumes "of_int k - 1 / 2 < y" "y < of_int k + 1 / 2"
  shows "round_even y = k"
proof (cases "of_int k \<le> y")
  case True
  with assms have "\<lfloor>y\<rfloor> = k" by (simp add: floor_eq_iff)
  with assms show ?thesis by (simp add: round_even_def Let_def)
next
  case False
  with assms have "\<lfloor>y\<rfloor> = k - 1" by (simp add: floor_eq_iff)
  with assms show ?thesis by (simp add: round_even_def Let_def)
qed

lemma fl_round_eval:
  assumes lo: "2 powi L \<le> x" and hi: "x < 2 powi (L + 1)"
    and e: "e = max (L - 52) emin"
    and r1: "(of_int k - 1 / 2) * 2 powi e < x" and r2: "x < (of_int k + 1 / 2) * 2 powi e"
    and fin: "\<bar>of_int k * 2 powi e\<bar> < huge"
  shows "fl_round x = Num (of_int k * 2 powi e)"
proof -
  have x0: "0 < x" using lo two_powi_pos[of L] by linarith
  have "L \<le> \<lfloor>log 2 x\<rfloor>" by (rule floor_log2_ge[OF lo])
  moreover have "\<lfloor>log 2 x\<rfloor> < L + 1" by (rule floor_log2_less[OF x0 hi])
  ultimately have "\<lfloor>log 2 x\<rfloor> = L" by simp
  then have u: "ulp_exp x = e" using x0 e by (simp add: ulp_exp_def)
  have "of_int k - 1 / 2 < x / 2 powi e" using r1 by (simp add: pos_less_divide_eq)
  moreover have "x / 2 powi e < of_int k + 1 / 2" using r2 by (simp add: pos_divide_less_eq)
  ultimately have "round_even (x / 2 powi e) = k" by (rule round_even_near)
  then show ?thesis using x0 fin by (simp add: fl_round_def Let_def u)
qed

subsection \<open>Cosine similarity\<close>

lemma sum_of_squares_fl_round:
  assumes "0 \<le> x"
  shows "sum_of_squares (fl_round x)"
proof -
  from fl_round_nonneg[OF assms] show ?thesis
  proof
    assume "fl_round x = PosInfinity"
    then show ?thesis by (simp add: sum_of_squares_def)
  next
    assume "\<exists>y. fl_round x = Num y \<and> 0 \<le> y"
    then obtain y where y: "fl_round x = Num y" "0 \<le> y" by blast
    from fl_round_grid[OF y(1)] obtain k :: int where "y = of_int k * 2 powi emin" by blast
    with y show ?thesis unfolding sum_of_squares_def by blast
  qed
qed

lemma sum_of_squares_zero [simp]: "sum_of_squares (Num 0)"
  using sum_of_squares_fl_round[of 0] by simp

lemma sum_of_squares_square: "sum_of_squares (js_mul v v)"
  by (cases v) (simp_all add: sum_of_squares_fl_round, simp_all add: sum_of_squares_def)

lemma sum_of_squares_add:
  assumes "sum_of_squares u" "sum_of_squares v"
  shows "sum_of_squares (js_add u v)"
proof (cases u)
  case (Num x)
  note u = this
  show ?thesis
  proof (cases v)
    case (Num y)
    with u assms have "0 \<le> x + y" by (simp add: sum_of_squares_def)
    then show ?thesis using u Num by (simp add: sum_of_squares_fl_round)
  qed (use u assms in \<open>simp_all add: sum_of_squares_def\<close>)
next
  case NaN
  then show ?thesis by (simp add: sum_of_squares_def)
next
  case PosInfinity
  with assms show ?thesis by (cases v) (simp_all add: sum_of_squares_def)
next
  case NegInfinity
  with assms show ?thesis by (simp add: sum_of_squares_def)
qed

lemma sum_of_squares_foldl:
  "sum_of_squares acc \<Longrightarrow> sum_of_squares (foldl js_add acc (map (\<lambda>v. js_mul v v) xs))"
  by (induction xs arbitrary: acc) (simp_all add: sum_of_squares_add sum_of_squares_square)

lemma sum_of_squares_truthy:
  assumes "sum_of_squares v" "\<not> js_falsy v"
  shows "at_least emin v"
proof -
  from assms consider "v = PosInfinity" | y k where "v = Num y" "0 < y" "y = of_int k * 2 powi emin"
    unfolding sum_of_squares_def by (auto simp: less_le)
  then show ?thesis
  proof cases
    case 1
    then show ?thesis by (simp add: at_least_def)
  next
    case 2
    have p: "0 < (2::real) powi emin" by simp
    from 2 p have "0 < (of_int k :: real)" by (simp add: zero_less_mult_iff)
    then have "(1::real) \<le> of_int k" by simp
    then have "(1::real) * 2 powi emin \<le> of_int k * 2 powi emin"
      by (rule mult_right_mono) simp
    then have "2 powi emin \<le> y" using 2 by (simp only: mult_1)
    with 2 show ?thesis by (simp add: at_least_def)
  qed
qed

lemma at_least_fl_round:
  "2 powi p \<le> x \<Longrightarrow> emin \<le> p \<Longrightarrow> at_least p (fl_round x)"
  using fl_round_lower[of p x] by (simp add: at_least_def)

lemma sqrt_two_powi: "sqrt (2 powi (2 * p)) = 2 powi p"
proof (rule real_sqrt_unique)
  show "(2 powi p)\<^sup>2 = (2::real) powi (2 * p)"
    using two_powi_add[of p p] by (simp add: power2_eq_square)
  show "0 \<le> (2::real) powi p" by (simp add: less_imp_le)
qed

lemma at_least_sqrt:
  assumes "at_least (2 * p) v" and p: "emin \<le> p"
  shows "at_least p (js_sqrt v)"
proof (cases "v = PosInfinity")
  case True
  then show ?thesis by (simp add: at_least_def)
next
  case False
  with assms obtain y where y: "v = Num y" "2 powi (2 * p) \<le> y" by (auto simp: at_least_def)
  have "sqrt (2 powi (2 * p)) \<le> sqrt y" using y(2) by (simp only: real_sqrt_le_iff)
  then have s: "2 powi p \<le> sqrt y" by (simp only: sqrt_two_powi)
  have "0 < (2::real) powi (2 * p)" by simp
  with y(2) have "\<not> y < 0" by linarith
  then show ?thesis using y(1) at_least_fl_round[OF s p] by simp
qed

lemma at_least_mul:
  assumes "at_least p u" "at_least p v" and e: "emin \<le> 2 * p"
  shows "at_least (2 * p) (js_mul u v)"
proof -
  have p: "0 < (2::real) powi p" by simp
  have "2 * p = p + p" by simp
  then have pp: "(2::real) powi (2 * p) = 2 powi p * 2 powi p"
    by (simp only: two_powi_add)
  show ?thesis
  proof (cases u)
    case (Num x)
    with assms(1) have x: "2 powi p \<le> x" by (simp add: at_least_def)
    with p have x0: "0 < x" by linarith
    show ?thesis
    proof (cases v)
      case (Num y)
      with assms(2) have y: "2 powi p \<le> y" by (simp add: at_least_def)
      have "(2::real) powi p * 2 powi p \<le> x * y"
        using x y p x0 by (intro mult_mono) (simp_all add: less_imp_le)
      then have "2 powi (2 * p) \<le> x * y" by (simp only: pp)
      from at_least_fl_round[OF this e] show ?thesis
        using \<open>u = Num x\<close> Num by simp
    qed (use Num assms x0 in \<open>simp_all add: at_least_def inf_times_def\<close>)
  next
    case PosInfinity
    show ?thesis
    proof (cases v)
      case (Num y)
      with assms(2) have "2 powi p \<le> y" by (simp add: at_least_def)
      with p have "0 < y" by linarith
      then show ?thesis using PosInfinity Num by (simp add: at_least_def inf_times_def)
    qed (use PosInfinity assms in \<open>simp_all add: at_least_def\<close>)
  qed (use assms in \<open>simp_all add: at_least_def\<close>)
qed

lemma at_least_positive: "at_least p v \<Longrightarrow> js_positive v"
proof -
  assume a: "at_least p v"
  have p: "0 < (2::real) powi p" by simp
  show ?thesis
  proof (cases "v = PosInfinity")
    case True then show ?thesis by simp
  next
    case False
    with a obtain y where y: "v = Num y" "2 powi p \<le> y" by (auto simp: at_least_def)
    with p have "0 < y" by linarith
    with y show ?thesis by simp
  qed
qed

text \<open>The divisor of \<open>cosineSimilarity\<close> is positive: a sum of squares that is
  not 0 is at least the least positive double.\<close>

lemma divisor_at_least:
  assumes "sum_of_squares na" "sum_of_squares nb" "\<not> js_falsy na" "\<not> js_falsy nb"
  shows "at_least emin (js_mul (js_sqrt na) (js_sqrt nb))"
proof -
  define h :: int where "h = - 537"
  have e: "emin = 2 * h" and h: "emin \<le> h" by (simp_all add: emin_def h_def)
  have "at_least (2 * h) na" "at_least (2 * h) nb"
    using assms sum_of_squares_truthy unfolding e[symmetric] by simp_all
  then have "at_least h (js_sqrt na)" "at_least h (js_sqrt nb)"
    by (simp_all only: at_least_sqrt[OF _ h])
  then have "at_least (2 * h) (js_mul (js_sqrt na) (js_sqrt nb))"
    by (rule at_least_mul) (simp only: e[symmetric] order_refl)
  then show ?thesis by (simp only: e)
qed

lemma divisor_positive:
  assumes "sum_of_squares na" "sum_of_squares nb" "\<not> js_falsy na" "\<not> js_falsy nb"
  shows "js_positive (js_mul (js_sqrt na) (js_sqrt nb))"
  using divisor_at_least[OF assms] by (rule at_least_positive)

lemma falsy_sqrt:
  assumes "sum_of_squares v"
  shows "js_falsy (js_sqrt v) \<longleftrightarrow> js_falsy v"
proof (cases "js_falsy v")
  case True
  then show ?thesis by (cases v) (simp_all split: if_splits)
next
  case False
  define h :: int where "h = - 537"
  have e: "emin = 2 * h" and h: "emin \<le> h" by (simp_all add: emin_def h_def)
  have "at_least (2 * h) v"
    using assms False sum_of_squares_truthy unfolding e[symmetric] by simp
  then have "at_least h (js_sqrt v)" by (rule at_least_sqrt[OF _ h])
  then have "js_positive (js_sqrt v)" by (rule at_least_positive)
  then have "\<not> js_falsy (js_sqrt v)" by (cases "js_sqrt v") simp_all
  with False show ?thesis by simp
qed


lemma cosine_loop_foldl:
  assumes "i \<le> len" "len \<le> length a" "len \<le> length b"
  shows "cosine_loop a b len i (dot, na, nb) =
     (foldl js_add dot (map2 js_mul (drop i (take len a)) (drop i (take len b))),
      foldl js_add na (map (\<lambda>v. js_mul v v) (drop i (take len a))),
      foldl js_add nb (map (\<lambda>v. js_mul v v) (drop i (take len b))))"
  using assms
proof (induction "len - i" arbitrary: i dot na nb)
  case 0
  then show ?case by (simp add: cosine_loop.simps)
next
  case (Suc n)
  then have i: "i < len" by simp
  with Suc.prems have ia: "i < length (take len a)" and ib: "i < length (take len b)" by simp_all
  have da: "drop i (take len a) = a ! i # drop (Suc i) (take len a)"
    using Cons_nth_drop_Suc[OF ia] i by simp
  have db: "drop i (take len b) = b ! i # drop (Suc i) (take len b)"
    using Cons_nth_drop_Suc[OF ib] i by simp
  have "n = len - Suc i" using Suc.hyps(2) by simp
  from Suc.hyps(1)[OF this] Suc.prems i
  have "cosine_loop a b len (Suc i)
          (js_add dot (js_mul (a ! i) (b ! i)), js_add na (js_mul (a ! i) (a ! i)),
           js_add nb (js_mul (b ! i) (b ! i))) =
        (foldl js_add (js_add dot (js_mul (a ! i) (b ! i)))
           (map2 js_mul (drop (Suc i) (take len a)) (drop (Suc i) (take len b))),
         foldl js_add (js_add na (js_mul (a ! i) (a ! i)))
           (map (\<lambda>v. js_mul v v) (drop (Suc i) (take len a))),
         foldl js_add (js_add nb (js_mul (b ! i) (b ! i)))
           (map (\<lambda>v. js_mul v v) (drop (Suc i) (take len b))))"
    by simp
  then show ?case using i by (simp add: da db cosine_loop.simps[of a b len i])
qed

lemma cosine_loop_sums:
  "cosine_loop a b (min (length a) (length b)) 0 (Num 0, Num 0, Num 0) =
     (foldl js_add (Num 0) (map2 js_mul (take (min (length a) (length b)) a)
                                        (take (min (length a) (length b)) b)),
      foldl js_add (Num 0) (map (\<lambda>v. js_mul v v) (take (min (length a) (length b)) a)),
      foldl js_add (Num 0) (map (\<lambda>v. js_mul v v) (take (min (length a) (length b)) b)))"
  using cosine_loop_foldl[of 0 "min (length a) (length b)" a b] by simp

lemma cosineSimilarity_cosine_spec:
  "cosineSimilarity a b =
     cosine_spec (take (min (length a) (length b)) a) (take (min (length a) (length b)) b)"
  by (simp add: cosineSimilarity_def cosine_loop_sums cosine_spec_def Let_def falsy_sqrt
        sum_of_squares_foldl)

lemma map2_js_mul_commute: "map2 js_mul xs ys = map2 js_mul ys xs"
proof (induction xs arbitrary: ys)
  case Nil
  then show ?case by simp
next
  case (Cons x xs)
  then show ?case by (cases ys) (simp_all add: js_mul_commute)
qed

lemma cosine_spec_commute: "cosine_spec x y = cosine_spec y x"
  by (simp add: cosine_spec_def Let_def map2_js_mul_commute[of x y]
        js_mul_commute[of "js_sqrt (foldl js_add (Num 0) (map (\<lambda>v. js_mul v v) x))"]
        disj_commute)

lemma cosineSimilarity_commute: "cosineSimilarity a b = cosineSimilarity b a"
  by (simp add: cosineSimilarity_cosine_spec min.commute cosine_spec_commute)

lemma foldl_squares_zero:
  "\<forall>x \<in> set xs. x = Num 0 \<Longrightarrow> foldl js_add (Num 0) (map (\<lambda>v. js_mul v v) xs) = Num 0"
  by (induction xs) simp_all

lemma cosineSimilarity_zero_prefix:
  assumes "(\<forall>x \<in> set (take (min (length a) (length b)) a). x = Num 0)
           \<or> (\<forall>x \<in> set (take (min (length a) (length b)) b). x = Num 0)"
  shows "cosineSimilarity a b = Num 0"
  using assms
  by (auto simp: cosineSimilarity_def cosine_loop_sums Let_def foldl_squares_zero)

lemma cosineSimilarity_Nil [simp]:
  "cosineSimilarity [] b = Num 0" "cosineSimilarity a [] = Num 0"
  by (simp_all add: cosineSimilarity_zero_prefix)

lemma js_sqrt_square: "0 \<le> x \<Longrightarrow> js_sqrt (Num (x * x)) = fl_round x"
  by (simp add: not_less[symmetric] mult_less_0_iff)

lemma js_sqrt_simps [simp]:
  "js_sqrt (Num 0) = Num 0" "js_sqrt (Num 1) = Num 1" "js_sqrt (Num 4) = Num 2"
  "js_sqrt (Num 25) = Num 5"
  using js_sqrt_square[of 0] js_sqrt_square[of 1] js_sqrt_square[of 2] js_sqrt_square[of 5]
  by simp_all

text \<open>
  C2. \<open>cosineSimilarity\<close> is a total function. With \<open>dot\<close>, \<open>na\<close> and \<open>nb\<close> the three sums
  of the loop: when \<open>na\<close> or \<open>nb\<close> is zero (or \<^verbatim>\<open>NaN\<close>) the result is 0 and nothing is
  divided; otherwise the result is the quotient and its divisor is a positive number or
  \<^verbatim>\<open>Infinity\<close>, never zero (a sum of squares that is not zero is at least the least
  positive double, so the product of the two roots does not underflow). When all
  components of the common prefix of \<open>a\<close> or of \<open>b\<close> are zero, and so when one vector is
  empty, the result is 0; a record with an empty embedding scores 0.
\<close>

theorem cosineSimilarity_zero_norm:
  "(case cosine_loop a b (min (length a) (length b)) 0 (Num 0, Num 0, Num 0) of
      (dot, na, nb) \<Rightarrow>
        (js_falsy na \<or> js_falsy nb \<longrightarrow> cosineSimilarity a b = Num 0)
      \<and> (\<not> js_falsy na \<and> \<not> js_falsy nb \<longrightarrow>
            cosineSimilarity a b = js_div dot (js_mul (js_sqrt na) (js_sqrt nb))
          \<and> js_positive (js_mul (js_sqrt na) (js_sqrt nb))))
   \<and> ((\<forall>x \<in> set (take (min (length a) (length b)) a). x = Num 0)
        \<longrightarrow> cosineSimilarity a b = Num 0)
   \<and> ((\<forall>x \<in> set (take (min (length a) (length b)) b). x = Num 0)
        \<longrightarrow> cosineSimilarity a b = Num 0)
   \<and> cosineSimilarity [] b = Num 0 \<and> cosineSimilarity a [] = Num 0
   \<and> (embedding d = Vec [] \<longrightarrow> score_of a d = Num 0)"
proof -
  let ?n = "min (length a) (length b)"
  let ?na = "foldl js_add (Num 0) (map (\<lambda>v. js_mul v v) (take ?n a))"
  let ?nb = "foldl js_add (Num 0) (map (\<lambda>v. js_mul v v) (take ?n b))"
  have "\<not> js_falsy ?na \<Longrightarrow> \<not> js_falsy ?nb \<Longrightarrow> js_positive (js_mul (js_sqrt ?na) (js_sqrt ?nb))"
    by (rule divisor_positive) (simp_all add: sum_of_squares_foldl)
  then have 1: "case cosine_loop a b ?n 0 (Num 0, Num 0, Num 0) of
      (dot, na, nb) \<Rightarrow>
        (js_falsy na \<or> js_falsy nb \<longrightarrow> cosineSimilarity a b = Num 0)
      \<and> (\<not> js_falsy na \<and> \<not> js_falsy nb \<longrightarrow>
            cosineSimilarity a b = js_div dot (js_mul (js_sqrt na) (js_sqrt nb))
          \<and> js_positive (js_mul (js_sqrt na) (js_sqrt nb)))"
    by (simp add: cosineSimilarity_def cosine_loop_sums Let_def)
  have 2: "(\<forall>x \<in> set (take ?n a). x = Num 0) \<longrightarrow> cosineSimilarity a b = Num 0"
    and 3: "(\<forall>x \<in> set (take ?n b). x = Num 0) \<longrightarrow> cosineSimilarity a b = Num 0"
    using cosineSimilarity_zero_prefix[of a b] by blast+
  have 4: "embedding d = Vec [] \<longrightarrow> score_of a d = Num 0"
    by (simp add: score_of_def)
  from 1 2 3 4 show ?thesis by simp
qed

theorem cosineSimilarity_zero_norm_witness:
  "cosineSimilarity [Num 0, Num 0, Num 5] [Num 1, Num 2] = Num 0
   \<and> cosineSimilarity [Num 3, Num 4] [Num 3, Num 4, Num 7]
       = js_div (Num 25) (js_mul (js_sqrt (Num 25)) (js_sqrt (Num 25)))
   \<and> js_positive (js_mul (js_sqrt (Num 25)) (js_sqrt (Num 25)))
   \<and> score_of [Num 1, Num 2] \<lparr>chunk_id = ''1'', chunk_text = ''t'', embedding = Vec [],
                                 sourceType = ''doc'', sourceName = ''n'', createdAt = 0\<rparr> = Num 0"
proof -
  let ?d = "\<lparr>chunk_id = ''1'', chunk_text = ''t'', embedding = Vec [],
             sourceType = ''doc'', sourceName = ''n'', createdAt = 0\<rparr>"
  have z: "\<forall>x \<in> set (take (min (length [Num 0, Num 0, Num 5]) (length [Num 1, Num 2]))
                          [Num 0, Num 0, Num 5]). x = Num 0"
    by simp
  have l: "cosine_loop [Num 3, Num 4] [Num 3, Num 4, Num 7]
             (min (length [Num 3, Num 4]) (length [Num 3, Num 4, Num 7])) 0 (Num 0, Num 0, Num 0)
           = (Num 25, Num 25, Num 25)"
    by (simp add: cosine_loop.simps)
  have e: "embedding ?d = Vec []" by simp
  from cosineSimilarity_zero_norm[of "[Num 0, Num 0, Num 5]" "[Num 1, Num 2]" ?d] z e
  have 1: "cosineSimilarity [Num 0, Num 0, Num 5] [Num 1, Num 2] = Num 0"
    and 2: "score_of [Num 0, Num 0, Num 5] ?d = Num 0" by blast+
  from cosineSimilarity_zero_norm[of "[Num 1, Num 2]" "[]" ?d] e
  have 3: "score_of [Num 1, Num 2] ?d = Num 0" by blast
  from cosineSimilarity_zero_norm[of "[Num 3, Num 4]" "[Num 3, Num 4, Num 7]" ?d]
  have 4: "cosineSimilarity [Num 3, Num 4] [Num 3, Num 4, Num 7]
             = js_div (Num 25) (js_mul (js_sqrt (Num 25)) (js_sqrt (Num 25)))
           \<and> js_positive (js_mul (js_sqrt (Num 25)) (js_sqrt (Num 25)))"
    unfolding l by simp
  from 1 3 4 show ?thesis by simp
qed

text \<open>
  C9. \<open>cosineSimilarity\<close> is symmetric, also for vectors of unequal length; its value
  is the one it has on the two prefixes of length \<open>min (length a) (length b)\<close>, and that
  is the cosine similarity of the two prefixes as the specification writes it; being a
  total function it raises nothing on a length mismatch. All of this is exact for
  doubles: the two calls round the same products and sums in the same order.
\<close>

theorem cosineSimilarity_symmetric_prefix:
  "cosineSimilarity a b = cosineSimilarity b a
   \<and> cosineSimilarity a b =
       cosineSimilarity (take (min (length a) (length b)) a)
                        (take (min (length a) (length b)) b)
   \<and> cosineSimilarity a b =
       cosine_spec (take (min (length a) (length b)) a)
                   (take (min (length a) (length b)) b)"
proof -
  let ?n = "min (length a) (length b)"
  have "cosineSimilarity (take ?n a) (take ?n b) = cosine_spec (take ?n a) (take ?n b)"
    by (subst cosineSimilarity_cosine_spec) simp
  then show ?thesis
    using cosineSimilarity_commute[of a b] cosineSimilarity_cosine_spec[of a b] by simp
qed

theorem cosineSimilarity_symmetric_prefix_witness:
  "cosineSimilarity [Num 3, Num 4] [Num 3, Num 4, Num 7] = Num 1
   \<and> cosineSimilarity [Num 3, Num 4, Num 7] [Num 3, Num 4] = Num 1
   \<and> cosine_spec [Num 3, Num 4] [Num 3, Num 4] = Num 1"
proof -
  have e: "cosineSimilarity [Num 3, Num 4] [Num 3, Num 4, Num 7] = Num 1"
    by (simp add: cosineSimilarity_def cosine_loop.simps)
  have m: "take (min (length [Num 3, Num 4]) (length [Num 3, Num 4, Num 7])) [Num 3, Num 4]
             = [Num 3, Num 4]"
    "take (min (length [Num 3, Num 4]) (length [Num 3, Num 4, Num 7])) [Num 3, Num 4, Num 7]
             = [Num 3, Num 4]"
    by simp_all
  note t = cosineSimilarity_symmetric_prefix[of "[Num 3, Num 4]" "[Num 3, Num 4, Num 7]",
      unfolded m]
  from t have s: "cosineSimilarity [Num 3, Num 4, Num 7] [Num 3, Num 4]
                    = cosineSimilarity [Num 3, Num 4] [Num 3, Num 4, Num 7]"
    by (rule conjunct1[THEN sym])
  from t have c: "cosine_spec [Num 3, Num 4] [Num 3, Num 4]
                    = cosineSimilarity [Num 3, Num 4] [Num 3, Num 4, Num 7]"
    by (rule conjunct2[THEN conjunct2, THEN sym])
  show ?thesis unfolding s c e by simp
qed

text \<open>
  The three ways a score leaves the exact cosine: the sum of squares overflows, the
  quotient has an infinite divisor, the sum of squares underflows.
\<close>

lemma cosineSimilarity_overflow_underflow:
  "cosineSimilarity [Num (2 ^ 600)] [Num (2 ^ 600)] = NaN"
  "cosineSimilarity [Num (2 ^ 600)] [Num 1] = Num 0"
  "cosineSimilarity [Num (1 / 2 ^ 600)] [Num 1] = Num 0"
proof -
  have o: "fl_round (2 ^ 600 * 2 ^ 600) = PosInfinity"
    by (rule fl_round_overflow) (simp add: huge_def)
  have x: "fl_round (2 ^ 600) = Num (2 ^ 600)"
    by (rule fl_round_exact[where m = 1 and q = 600]) (simp_all add: emin_def huge_def)
  have u: "fl_round (1 / 2 ^ 600 * (1 / 2 ^ 600)) = Num 0"
    by (rule fl_round_underflow) (simp add: emin_def power_int_def divide_simps)
  have y: "fl_round (1 / 2 ^ 600) = Num (1 / 2 ^ 600)"
    by (rule fl_round_exact[where m = 1 and q = "- 600"])
       (simp_all add: emin_def huge_def power_int_def divide_simps)
  show "cosineSimilarity [Num (2 ^ 600)] [Num (2 ^ 600)] = NaN"
    using o by (simp add: cosineSimilarity_def cosine_loop.simps del: power_mult_distrib)
  show "cosineSimilarity [Num (2 ^ 600)] [Num 1] = Num 0"
    using o x by (simp add: cosineSimilarity_def cosine_loop.simps inf_times_def)
  show "cosineSimilarity [Num (1 / 2 ^ 600)] [Num 1] = Num 0"
    using u y by (simp add: cosineSimilarity_def cosine_loop.simps)
qed


subsection \<open>Ranking\<close>

lemma with_score_simps [simp]:
  "score (with_score d s) = s"
  "chunk.truncate (with_score d s) = d"
  "chunk_id (with_score d s) = chunk_id d"
  "chunk_text (with_score d s) = chunk_text d"
  "sourceType (with_score d s) = sourceType d"
  "sourceName (with_score d s) = sourceName d"
  "embedding (with_score d s) = embedding d"
  by (simp_all add: with_score_def chunk.extend_def chunk.truncate_def scored.fields_def)

lemma scoredOf_map [simp]:
  "map chunk.truncate (scoredOf q docs) = docs"
  "map score (scoredOf q docs) = map (score_of q) docs"
  "length (scoredOf q docs) = length docs"
  by (simp_all add: scoredOf_def comp_def)

text \<open>The sort rearranges, whatever the comparison function answers.\<close>

lemma mset_sort_insert: "mset (sort_insert cmp x ys) = add_mset x (mset ys)"
  by (induction ys) simp_all

lemma mset_array_sort: "mset (array_sort cmp xs) = mset xs"
  by (induction xs) (simp_all add: mset_sort_insert)

lemma length_array_sort: "length (array_sort cmp xs) = length xs"
  using mset_array_sort[of cmp xs] by (metis size_mset)

lemma length_rank: "length (rank q docs) = min (length docs) 5"
  by (simp add: rank_def topK_of_def length_array_sort)

text \<open>
  A finite score is a double, and the difference of two doubles has the sign of the
  exact difference: it does not underflow.
\<close>

lemma js_div_grid:
  assumes "js_div u v = Num r"
  shows "\<exists>k::int. r = of_int k * 2 powi emin"
proof (cases u)
  case (Num x)
  note u = this
  show ?thesis
  proof (cases v)
    case (Num y)
    with u assms have "fl_round (x / y) = Num r" by (simp split: if_splits)
    then show ?thesis by (rule fl_round_grid)
  next
    case NaN
    with u assms show ?thesis by simp
  next
    case PosInfinity
    with u assms have "r = of_int 0 * 2 powi emin" by simp
    then show ?thesis ..
  next
    case NegInfinity
    with u assms have "r = of_int 0 * 2 powi emin" by simp
    then show ?thesis ..
  qed
next
  case NaN
  with assms show ?thesis by simp
next
  case PosInfinity
  with assms show ?thesis by (cases v) (simp_all split: if_splits)
next
  case NegInfinity
  with assms show ?thesis by (cases v) (simp_all split: if_splits)
qed

lemma cosineSimilarity_grid:
  assumes "cosineSimilarity a b = Num r"
  shows "\<exists>k::int. r = of_int k * 2 powi emin"
proof -
  obtain dot na nb
    where l: "cosine_loop a b (min (length a) (length b)) 0 (Num 0, Num 0, Num 0) = (dot, na, nb)"
    by (metis prod_cases3)
  show ?thesis
  proof (cases "js_falsy na \<or> js_falsy nb")
    case True
    with assms l have "r = of_int 0 * 2 powi emin" by (simp add: cosineSimilarity_def)
    then show ?thesis ..
  next
    case False
    with assms l have "js_div dot (js_mul (js_sqrt na) (js_sqrt nb)) = Num r"
      by (simp add: cosineSimilarity_def)
    then show ?thesis by (rule js_div_grid)
  qed
qed

lemma score_of_grid:
  assumes "score_of q d = Num r"
  shows "\<exists>k::int. r = of_int k * 2 powi emin"
proof (cases "embedding d")
  case (Vec v)
  with assms have "cosineSimilarity q v = Num r" by (simp add: score_of_def)
  then show ?thesis by (rule cosineSimilarity_grid)
next
  case Missing
  with assms have "r = of_int 0 * 2 powi emin" by (simp add: score_of_def)
  then show ?thesis ..
next
  case NotArray
  with assms have "r = of_int 0 * 2 powi emin" by (simp add: score_of_def)
  then show ?thesis ..
qed

lemma compareScore_positive:
  assumes "score x = Num rx" "rx = of_int kx * 2 powi emin"
    and "score y = Num ry" "ry = of_int ky * 2 powi emin"
  shows "js_positive (compareScore x y) \<longleftrightarrow> rx < ry"
proof -
  have "ry - rx = of_int (ky - kx) * 2 powi emin"
    using assms by (simp add: algebra_simps)
  from fl_round_positive_iff[OF this] show ?thesis
    using assms(1,3) by (simp add: compareScore_def)
qed

lemma sort_insert_insort_key:
  assumes "\<forall>y \<in> set (x # ys). \<exists>r k. score y = Num r \<and> r = of_int k * 2 powi emin"
  shows "sort_insert compareScore x ys = insort_key (\<lambda>d. - num_of (score d)) x ys"
  using assms
proof (induction ys)
  case Nil
  then show ?case by simp
next
  case (Cons y ys)
  from Cons.prems obtain rx kx ry ky
    where x: "score x = Num rx" "rx = of_int kx * 2 powi emin"
      and y: "score y = Num ry" "ry = of_int ky * 2 powi emin"
    by auto
  have cmp: "js_positive (compareScore x y) = (\<not> num_of (score y) \<le> num_of (score x))"
    using compareScore_positive[OF x y] x(1) y(1) by (simp add: not_le)
  have "sort_insert compareScore x ys = insort_key (\<lambda>d. - num_of (score d)) x ys"
    using Cons by simp
  with cmp show ?case by simp
qed

lemma array_sort_sort_key:
  assumes "\<forall>y \<in> set xs. \<exists>r k. score y = Num r \<and> r = of_int k * 2 powi emin"
  shows "array_sort compareScore xs = sort_key (\<lambda>d. - num_of (score d)) xs"
  using assms
proof (induction xs)
  case Nil
  then show ?case by simp
next
  case (Cons x xs)
  then have ih: "array_sort compareScore xs = sort_key (\<lambda>d. - num_of (score d)) xs" by simp
  have "\<forall>y \<in> set (x # sort_key (\<lambda>d. - num_of (score d)) xs).
          \<exists>r k. score y = Num r \<and> r = of_int k * 2 powi emin"
    using Cons.prems by simp
  from sort_insert_insort_key[OF this] ih show ?case by simp
qed

lemma sorted_map_const:
  fixes f :: "'a \<Rightarrow> real"
  shows "\<forall>x \<in> set xs. f x = c \<Longrightarrow> sorted (map f xs)"
  by (induction xs) auto

lemma rank_props:
  assumes fin: "\<forall>d \<in> set docs. \<exists>r. score_of q d = Num r"
  shows "array_sort compareScore (scoredOf q docs)
           = sort_key (\<lambda>d. - num_of (score d)) (scoredOf q docs)"
    and "sorted_wrt (\<lambda>x y. num_of (score y) \<le> num_of (score x))
           (array_sort compareScore (scoredOf q docs))"
    and "filter (\<lambda>d. score d = s) (array_sort compareScore (scoredOf q docs))
           = filter (\<lambda>d. score d = s) (scoredOf q docs)"
proof -
  let ?sc = "scoredOf q docs"
  let ?srt = "array_sort compareScore ?sc"
  have g: "\<forall>y \<in> set ?sc. \<exists>r k. score y = Num r \<and> r = of_int k * 2 powi emin"
  proof
    fix y assume "y \<in> set ?sc"
    then obtain d where d: "d \<in> set docs" "score y = score_of q d"
      by (auto simp: scoredOf_def)
    with fin obtain r where r: "score_of q d = Num r" by blast
    from score_of_grid[OF this] obtain k :: int where "r = of_int k * 2 powi emin" by blast
    with d r show "\<exists>r k. score y = Num r \<and> r = of_int k * 2 powi emin" by auto
  qed
  show eq: "?srt = sort_key (\<lambda>d. - num_of (score d)) ?sc"
    by (rule array_sort_sort_key[OF g])
  have "sorted (map (\<lambda>d. - num_of (score d)) ?srt)"
    by (simp add: eq)
  then show "sorted_wrt (\<lambda>x y. num_of (score y) \<le> num_of (score x)) ?srt"
    by (simp add: sorted_map)
  have "filter (\<lambda>d. score d = s) ?srt
          = sort_key (\<lambda>d. - num_of (score d)) (filter (\<lambda>d. score d = s) ?sc)"
    by (simp add: eq filter_sort)
  also have "\<dots> = filter (\<lambda>d. score d = s) ?sc"
    by (rule sort_key_id_if_sorted) (rule sorted_map_const[where c = "- num_of s"], simp)
  finally show "filter (\<lambda>d. score d = s) ?srt = filter (\<lambda>d. score d = s) ?sc" .
qed

lemma in_take_sorted:
  fixes g :: "'a \<Rightarrow> real"
  assumes srt: "sorted_wrt (\<lambda>x y. g y \<le> g x) xs"
    and mem: "d \<in> set xs"
    and cnt: "length (filter (\<lambda>x. g d \<le> g x) xs) \<le> n"
  shows "d \<in> set (take n xs)"
proof -
  from mem obtain p where p: "p < length xs" "xs ! p = d"
    by (auto simp: in_set_conv_nth)
  have "\<forall>x \<in> set (take (Suc p) xs). g d \<le> g x"
  proof
    fix x assume "x \<in> set (take (Suc p) xs)"
    then obtain i where i: "i < Suc p" "i < length xs" "xs ! i = x"
      by (auto simp: in_set_conv_nth)
    show "g d \<le> g x"
    proof (cases "i = p")
      case True with i p show ?thesis by simp
    next
      case False
      with i have "i < p" by simp
      with srt p i show ?thesis by (auto simp: sorted_wrt_iff_nth_less)
    qed
  qed
  then have "filter (\<lambda>x. g d \<le> g x) (take (Suc p) xs) = take (Suc p) xs"
    by (simp add: filter_id_conv)
  moreover have "length (filter (\<lambda>x. g d \<le> g x) (take (Suc p) xs))
                 \<le> length (filter (\<lambda>x. g d \<le> g x) xs)"
  proof -
    have "filter (\<lambda>x. g d \<le> g x) xs =
          filter (\<lambda>x. g d \<le> g x) (take (Suc p) xs) @ filter (\<lambda>x. g d \<le> g x) (drop (Suc p) xs)"
      by (metis append_take_drop_id filter_append)
    then show ?thesis by simp
  qed
  ultimately have "Suc p \<le> n" using cnt p by simp
  then have "p < n" by simp
  with p show ?thesis by (auto simp: in_set_conv_nth)
qed

lemma scoreFs_Some: "scoreFs (Some q) d = Some (score_of q d)"
  by (cases "embedding d") (simp_all add: scoreFs_def score_of_def)

lemma scoredFs_Some: "scoredFs (Some q) docs = Some (scoredOf q docs)"
  by (induction docs) (simp_all add: scoreFs_Some scoredOf_def)

text \<open>The retrieval path of the four Query handlers returns what \<open>rank\<close> returns.\<close>

lemma chatRag_mem_rank:
  assumes "req_message cb = Some m" and "\<not> blank (Some m)" and "classify m = Question"
    and "\<not> keyNotConfigured e"
    and "embedContent e m = Inr (Values q)"
  shows "fst (chatRag_mem e cb w)
           = (case generateContent e (RagPrompt m (contextText_mem (rank q (ragChunks w)))) of
                Inl err \<Rightarrow> Status 500 (''Error generating answer: ''
                                        @ orElse (message err) ''unknown error'')
              | Inr r \<Rightarrow> ChatOk (answerOr r ''(no answer)'')
                          (map toTopChunk (rank q (ragChunks w))))"
proof -
  have m: "orElse (req_message cb) [] = m"
    using assms(1,2) by (simp add: orElse_def blank_def)
  show ?thesis using assms m
    by (simp add: chatRag_mem_def Let_def logCall_def split: sum.splits)
qed

lemma chatRag_rank:
  assumes "req_message cb = Some m" and "\<not> blank (Some m)" and "classify m = Question"
    and "embedContent e m = Inr (Values q)"
    and "collectionGet e (ragChunks w) = Inr docs"
  shows "fst (chatRag e cb w)
           = (case generateContent e (RagPrompt m (contextText (rank q docs))) of
                Inl err \<Rightarrow> Status 500 ''Error generating answer''
              | Inr r \<Rightarrow> ChatOk (answerOr r ''(no answer)'') (map toTopChunk (rank q docs)))"
    and "fst (chatRag_fn e ''POST'' cb w) = fst (chatRag e cb w)"
    and "fst (chatRag_fn_old e ''POST'' cb w) = fst (chatRag e cb w)"
proof -
  have m: "orElse (req_message cb) [] = m"
    using assms(1,2) by (simp add: orElse_def blank_def)
  show "fst (chatRag e cb w)
           = (case generateContent e (RagPrompt m (contextText (rank q docs))) of
                Inl err \<Rightarrow> Status 500 ''Error generating answer''
              | Inr r \<Rightarrow> ChatOk (answerOr r ''(no answer)'') (map toTopChunk (rank q docs)))"
    using assms m
    by (simp add: chatRag_def Let_def logCall_def scoredFs_Some rank_def split: sum.splits)
  show "fst (chatRag_fn e ''POST'' cb w) = fst (chatRag e cb w)"
    using assms m
    by (simp add: chatRag_def chatRag_fn_def onRequest_def Let_def logCall_def scoredFs_Some
          split: sum.splits)
  show "fst (chatRag_fn_old e ''POST'' cb w) = fst (chatRag e cb w)"
    using assms m
    by (simp add: chatRag_def chatRag_fn_old_def onRequest_def Let_def logCall_def scoredFs_Some
          split: sum.splits)
qed


text \<open>
  C1, as amended. A Query that is not a greeting answers with the candidates \<open>rank\<close>
  selects from the stored records, in the in-memory server, the Firestore server and the
  Cloud Functions. For every list of records: each record gets a score (a record with
  an empty embedding the score 0, and it stays in the list); \<open>rank\<close> returns
  \<open>min N 5\<close> candidates; followed by the candidates left out they are a rearrangement of
  all the scored records; and whenever every score is a finite number, that arrangement
  is in descending order of score and the records of equal score keep the order they
  had in the store.
\<close>

theorem rank_top5_stable:
  assumes "req_message cb = Some m" and "\<not> blank (Some m)" and "classify m = Question"
    and "embedContent e m = Inr (Values q)"
    and "collectionGet e (ragChunks w) = Inr docs"
  shows "(\<not> keyNotConfigured e \<longrightarrow>
            fst (chatRag_mem e cb w)
              = (case generateContent e (RagPrompt m (contextText_mem (rank q (ragChunks w)))) of
                   Inl err \<Rightarrow> Status 500 (''Error generating answer: ''
                                           @ orElse (message err) ''unknown error'')
                 | Inr r \<Rightarrow> ChatOk (answerOr r ''(no answer)'')
                             (map toTopChunk (rank q (ragChunks w)))))
       \<and> fst (chatRag e cb w)
           = (case generateContent e (RagPrompt m (contextText (rank q docs))) of
                Inl err \<Rightarrow> Status 500 ''Error generating answer''
              | Inr r \<Rightarrow> ChatOk (answerOr r ''(no answer)'') (map toTopChunk (rank q docs)))
       \<and> fst (chatRag_fn e ''POST'' cb w) = fst (chatRag e cb w)
       \<and> fst (chatRag_fn_old e ''POST'' cb w) = fst (chatRag e cb w)
       \<and> (\<forall>ds. \<exists>rest.
              map chunk.truncate (scoredOf q ds) = ds
            \<and> map score (scoredOf q ds) = map (score_of q) ds
            \<and> (\<forall>d \<in> set ds. embedding d = Vec [] \<longrightarrow> score_of q d = Num 0)
            \<and> length (rank q ds) = min (length ds) 5
            \<and> mset (rank q ds @ rest) = mset (scoredOf q ds)
            \<and> ((\<forall>d \<in> set ds. \<exists>r. score_of q d = Num r) \<longrightarrow>
                  sorted_wrt (\<lambda>x y. num_of (score y) \<le> num_of (score x)) (rank q ds @ rest)
                \<and> (\<forall>s. filter (\<lambda>d. score d = s) (rank q ds @ rest)
                         = filter (\<lambda>d. score d = s) (scoredOf q ds))))"
proof -
  have r: "\<exists>rest.
              map chunk.truncate (scoredOf q ds) = ds
            \<and> map score (scoredOf q ds) = map (score_of q) ds
            \<and> (\<forall>d \<in> set ds. embedding d = Vec [] \<longrightarrow> score_of q d = Num 0)
            \<and> length (rank q ds) = min (length ds) 5
            \<and> mset (rank q ds @ rest) = mset (scoredOf q ds)
            \<and> ((\<forall>d \<in> set ds. \<exists>r. score_of q d = Num r) \<longrightarrow>
                  sorted_wrt (\<lambda>x y. num_of (score y) \<le> num_of (score x)) (rank q ds @ rest)
                \<and> (\<forall>s. filter (\<lambda>d. score d = s) (rank q ds @ rest)
                         = filter (\<lambda>d. score d = s) (scoredOf q ds)))" for ds
  proof -
    let ?srt = "array_sort compareScore (scoredOf q ds)"
    have split: "rank q ds @ drop 5 ?srt = ?srt"
      by (simp add: rank_def topK_of_def)
    have 1: "\<forall>d \<in> set ds. embedding d = Vec [] \<longrightarrow> score_of q d = Num 0"
      by (simp add: score_of_def)
    have 2: "mset ?srt = mset (scoredOf q ds)" by (rule mset_array_sort)
    have 3: "sorted_wrt (\<lambda>x y. num_of (score y) \<le> num_of (score x)) ?srt
             \<and> (\<forall>s. filter (\<lambda>d. score d = s) ?srt = filter (\<lambda>d. score d = s) (scoredOf q ds))"
      if "\<forall>d \<in> set ds. \<exists>r. score_of q d = Num r"
      using rank_props(2,3)[OF that] by simp
    show ?thesis
      apply (rule exI[of _ "drop 5 ?srt"])
      apply (simp only: split)
      using 1 2 3 by (simp add: length_rank)
  qed
  from r chatRag_mem_rank[OF assms(1,2,3) _ assms(4), of w] chatRag_rank[OF assms]
  show ?thesis by simp
qed

lemma classify_why: "classify ''why'' = Question" by code_simp
lemma not_blank_why: "\<not> blank (Some ''why'')" by (simp add: blank_def trim_def isWhiteSpace_def)

lemma example_scores:
  "score_of [Num 1, Num 0] (exampleDoc i (Vec [Num 0, Num 1])) = Num 0"
  "score_of [Num 1, Num 0] (exampleDoc i (Vec [])) = Num 0"
  "score_of [Num 1, Num 0] (exampleDoc i Missing) = Num 0"
  "score_of [Num 1, Num 0] (exampleDoc i (Vec [Num 2, Num 0])) = Num 1"
  "score_of [Num 1, Num 0] (exampleDoc i (Vec [Num (- 1), Num 0])) = Num (- 1)"
  "score_of [Num 1, Num 0] (exampleDoc i (Vec [Num 1])) = Num 1"
  "score_of [Num 1, Num 0] (exampleDoc i NotArray) = Num 0"
  "score_of [Num 1, Num 0] (exampleDoc i (Vec [Num 1, Num 0])) = Num 1"
  by (simp_all add: score_of_def exampleDoc_def cosineSimilarity_def cosine_loop.simps)

lemma example_rank:
  "map chunk_id (rank [Num 1, Num 0] exampleDocs) = [''d'', ''f'', ''a'', ''b'', ''c'']"
  "map score (rank [Num 1, Num 0] exampleDocs) = [Num 1, Num 1, Num 0, Num 0, Num 0]"
  by (simp_all add: rank_def topK_of_def scoredOf_def exampleDocs_def example_scores
        compareScore_def, simp_all add: exampleDoc_def)

theorem rank_top5_stable_witness:
  "fst (chatRag_mem configuredEnv \<lparr>req_message = Some ''why''\<rparr> (storedWorld exampleDocs))
     = ChatOk ''hello'' (map toTopChunk (rank [Num 1, Num 0] exampleDocs))
   \<and> fst (chatRag configuredEnv \<lparr>req_message = Some ''why''\<rparr> (storedWorld exampleDocs))
     = ChatOk ''hello'' (map toTopChunk (rank [Num 1, Num 0] exampleDocs))
   \<and> map chunk_id (rank [Num 1, Num 0] exampleDocs) = [''d'', ''f'', ''a'', ''b'', ''c'']
   \<and> map score (rank [Num 1, Num 0] exampleDocs) = [Num 1, Num 1, Num 0, Num 0, Num 0]
   \<and> length (rank [Num 1, Num 0] exampleDocs) = min (length exampleDocs) 5
   \<and> sorted_wrt (\<lambda>x y. num_of (score y) \<le> num_of (score x)) (rank [Num 1, Num 0] exampleDocs)"
proof -
  let ?cb = "\<lparr>req_message = Some ''why''\<rparr>"
  let ?w = "storedWorld exampleDocs"
  have a: "req_message ?cb = Some ''why''" by simp
  have b: "embedContent configuredEnv ''why'' = Inr (Values [Num 1, Num 0])"
    by (simp add: configuredEnv_def exampleEnv_def)
  have c: "collectionGet configuredEnv (ragChunks ?w) = Inr exampleDocs"
    by (simp add: configuredEnv_def exampleEnv_def storedWorld_def)
  have k: "\<not> keyNotConfigured configuredEnv"
    by (simp add: keyNotConfigured_def configuredEnv_def)
  have g: "generateContent configuredEnv p = Inr (Some ''hello'')" for p
    by (simp add: configuredEnv_def exampleEnv_def)
  have w: "ragChunks ?w = exampleDocs" by (simp add: storedWorld_def)
  have f: "\<forall>d \<in> set exampleDocs. \<exists>r. score_of [Num 1, Num 0] d = Num r"
    by (simp add: exampleDocs_def example_scores)
  note t = rank_top5_stable[OF a not_blank_why classify_why b c]
  from t k have 1: "fst (chatRag_mem configuredEnv ?cb ?w)
     = ChatOk ''hello'' (map toTopChunk (rank [Num 1, Num 0] exampleDocs))"
    by (simp add: g w answerOr_def orElse_def)
  from t have 2: "fst (chatRag configuredEnv ?cb ?w)
     = ChatOk ''hello'' (map toTopChunk (rank [Num 1, Num 0] exampleDocs))"
    by (simp add: g answerOr_def orElse_def)
  from t obtain rest where
    3: "length (rank [Num 1, Num 0] exampleDocs) = min (length exampleDocs) 5"
    and 4: "(\<forall>d \<in> set exampleDocs. \<exists>r. score_of [Num 1, Num 0] d = Num r) \<longrightarrow>
         sorted_wrt (\<lambda>x y. num_of (score y) \<le> num_of (score x))
           (rank [Num 1, Num 0] exampleDocs @ rest)"
    by blast
  from 4 f have 5: "sorted_wrt (\<lambda>x y. num_of (score y) \<le> num_of (score x))
                      (rank [Num 1, Num 0] exampleDocs)"
    by (simp add: sorted_wrt_append)
  from 1 2 3 5 example_rank show ?thesis by simp
qed

text \<open>
  C1 as stated fails. The square of \<open>2 ^ 600\<close> is beyond the doubles: for the query
  \<open>[1, 2 ^ 600]\<close> the record \<open>a\<close>, whose embedding is \<open>[0, 2 ^ 600]\<close>, has the sums
  \<^verbatim>\<open>Infinity\<close> and the score \<^verbatim>\<open>Infinity / Infinity\<close>, which is \<^verbatim>\<open>NaN\<close>. All three
  records are returned, so the scores returned are in no descending order, wherever the
  sort puts \<open>a\<close>. The comparison function answers \<^verbatim>\<open>NaN\<close> whenever it is given \<open>a\<close>;
  the sort then moves nothing, and the record \<open>c\<close> of score 1 is returned after the
  record \<open>b\<close> of score 0.
\<close>

theorem rank_nan_counterexample:
  "map chunk_id (rank [Num 1, bigNumber] overflowDocs) = [''b'', ''a'', ''c'']
   \<and> map score (rank [Num 1, bigNumber] overflowDocs) = [Num 0, NaN, Num 1]
   \<and> fst (chatRag_mem overflowEnv \<lparr>req_message = Some ''why''\<rparr> (storedWorld overflowDocs))
       = ChatOk ''hello''
           [\<lparr>tc_id = ''b'', tc_sourceType = ''doc'', tc_sourceName = ''n'', tc_score = Num 0\<rparr>,
            \<lparr>tc_id = ''a'', tc_sourceType = ''doc'', tc_sourceName = ''n'', tc_score = NaN\<rparr>,
            \<lparr>tc_id = ''c'', tc_sourceType = ''doc'', tc_sourceName = ''n'', tc_score = Num 1\<rparr>]
   \<and> fst (chatRag overflowEnv \<lparr>req_message = Some ''why''\<rparr> (storedWorld overflowDocs))
       = ChatOk ''hello''
           [\<lparr>tc_id = ''b'', tc_sourceType = ''doc'', tc_sourceName = ''n'', tc_score = Num 0\<rparr>,
            \<lparr>tc_id = ''a'', tc_sourceType = ''doc'', tc_sourceName = ''n'', tc_score = NaN\<rparr>,
            \<lparr>tc_id = ''c'', tc_sourceType = ''doc'', tc_sourceName = ''n'', tc_score = Num 1\<rparr>]"
proof -
  have "fl_round (2 ^ 600 * 2 ^ 600) = PosInfinity"
    by (rule fl_round_overflow) (simp add: huge_def)
  then have o: "js_mul bigNumber bigNumber = PosInfinity"
    by (simp only: bigNumber_def js_mul.simps)
  have s: "score_of [Num 1, bigNumber] (exampleDoc i (Vec [])) = Num 0"
    "score_of [Num 1, bigNumber] (exampleDoc i (Vec [Num 0, bigNumber])) = NaN"
    "score_of [Num 1, bigNumber] (exampleDoc i (Vec [Num 1])) = Num 1" for i
    by (simp_all add: score_of_def exampleDoc_def cosineSimilarity_def cosine_loop.simps o)
  have r: "rank [Num 1, bigNumber] overflowDocs
             = [with_score (exampleDoc ''b'' (Vec [])) (Num 0),
                with_score (exampleDoc ''a'' (Vec [Num 0, bigNumber])) NaN,
                with_score (exampleDoc ''c'' (Vec [Num 1])) (Num 1)]"
    by (simp add: rank_def topK_of_def scoredOf_def overflowDocs_def s compareScore_def)
  have t: "map toTopChunk (rank [Num 1, bigNumber] overflowDocs)
       = [\<lparr>tc_id = ''b'', tc_sourceType = ''doc'', tc_sourceName = ''n'', tc_score = Num 0\<rparr>,
          \<lparr>tc_id = ''a'', tc_sourceType = ''doc'', tc_sourceName = ''n'', tc_score = NaN\<rparr>,
          \<lparr>tc_id = ''c'', tc_sourceType = ''doc'', tc_sourceName = ''n'', tc_score = Num 1\<rparr>]"
    unfolding r by (simp add: toTopChunk_def, simp add: exampleDoc_def)
  let ?cb = "\<lparr>req_message = Some ''why''\<rparr>"
  let ?w = "storedWorld overflowDocs"
  have a: "req_message ?cb = Some ''why''" by simp
  have b: "embedContent overflowEnv ''why'' = Inr (Values [Num 1, bigNumber])"
    by (simp add: overflowEnv_def)
  have c: "collectionGet overflowEnv (ragChunks ?w) = Inr overflowDocs"
    by (simp add: overflowEnv_def configuredEnv_def exampleEnv_def storedWorld_def)
  have k: "\<not> keyNotConfigured overflowEnv"
    by (simp add: keyNotConfigured_def overflowEnv_def configuredEnv_def)
  have g: "generateContent overflowEnv p = Inr (Some ''hello'')" for p
    by (simp add: overflowEnv_def configuredEnv_def exampleEnv_def)
  have w: "ragChunks ?w = overflowDocs" by (simp add: storedWorld_def)
  have 1: "fst (chatRag_mem overflowEnv ?cb ?w)
             = ChatOk ''hello'' (map toTopChunk (rank [Num 1, bigNumber] overflowDocs))"
    using chatRag_mem_rank[OF a not_blank_why classify_why k b, of ?w]
    by (simp add: g w answerOr_def orElse_def)
  have 2: "fst (chatRag overflowEnv ?cb ?w)
             = ChatOk ''hello'' (map toTopChunk (rank [Num 1, bigNumber] overflowDocs))"
    using chatRag_rank(1)[OF a not_blank_why classify_why b c]
    by (simp add: g answerOr_def orElse_def)
  have 3: "map chunk_id (rank [Num 1, bigNumber] overflowDocs) = [''b'', ''a'', ''c'']"
    "map score (rank [Num 1, bigNumber] overflowDocs) = [Num 0, NaN, Num 1]"
    unfolding r by (simp_all add: exampleDoc_def)
  show ?thesis unfolding 1 2 t using 3 by simp
qed


lemma scoredFs_no_array:
  "\<forall>x \<in> set docs. embedding x = Missing \<or> embedding x = NotArray
   \<Longrightarrow> scoredFs qe docs = Some (map (\<lambda>x. with_score x (Num 0)) docs)"
  by (induction docs) (auto simp: scoreFs_def)

text \<open>
  C10. A stored record whose \<open>embedding\<close> is missing or not an array gets the score 0
  whatever the query vector, also in the Firestore server when the query has no vector,
  where scoring it does not throw; it is among the scored candidates, which the
  Firestore server builds for every query vector (and without one, when no record has an
  array); it is returned whenever the store has at most five records, and whenever all
  scores are finite numbers and at most five records, itself included, score at least 0.
  In the two servers it is then among the \<open>topChunks\<close> of the response.
\<close>

theorem non_array_embedding_scores_zero:
  assumes "d \<in> set docs" and "embedding d = Missing \<or> embedding d = NotArray"
  shows "score_of q d = Num 0
     \<and> scoreFs qe d = Some (Num 0)
     \<and> scoredFs (Some q) docs = Some (scoredOf q docs)
     \<and> ((\<forall>x \<in> set docs. embedding x = Missing \<or> embedding x = NotArray)
          \<longrightarrow> scoredFs qe docs = Some (map (\<lambda>x. with_score x (Num 0)) docs))
     \<and> with_score d (Num 0) \<in> set (scoredOf q docs)
     \<and> (length docs \<le> 5 \<longrightarrow> with_score d (Num 0) \<in> set (rank q docs))
     \<and> ((\<forall>x \<in> set docs. \<exists>r. score_of q x = Num r)
          \<and> length (filter (\<lambda>x. 0 \<le> num_of (score_of q x)) docs) \<le> 5
            \<longrightarrow> with_score d (Num 0) \<in> set (rank q docs))
     \<and> (req_message cb = Some m \<and> \<not> blank (Some m) \<and> classify m = Question
          \<and> embedContent e m = Inr (Values q) \<and> with_score d (Num 0) \<in> set (rank q docs)
            \<longrightarrow> (\<not> keyNotConfigured e \<and> ragChunks w = docs
                    \<and> generateContent e (RagPrompt m (contextText_mem (rank q docs))) = Inr r
                  \<longrightarrow> fst (chatRag_mem e cb w)
                        = ChatOk (answerOr r ''(no answer)'') (map toTopChunk (rank q docs))
                    \<and> toTopChunk (with_score d (Num 0)) \<in> set (map toTopChunk (rank q docs)))
              \<and> (collectionGet e (ragChunks w) = Inr docs
                    \<and> generateContent e (RagPrompt m (contextText (rank q docs))) = Inr r
                  \<longrightarrow> fst (chatRag e cb w)
                        = ChatOk (answerOr r ''(no answer)'') (map toTopChunk (rank q docs))
                    \<and> toTopChunk (with_score d (Num 0)) \<in> set (map toTopChunk (rank q docs))))"
proof -
  let ?sc = "scoredOf q docs"
  let ?srt = "array_sort compareScore ?sc"
  let ?e = "with_score d (Num 0)"
  have z: "score_of q d = Num 0"
    using assms(2) by (auto simp: score_of_def)
  have zf: "scoreFs qe d = Some (Num 0)"
    using assms(2) by (auto simp: scoreFs_def)
  have m: "?e \<in> set ?sc"
    using assms(1) z by (force simp: scoredOf_def)
  have ms: "?e \<in> set ?srt"
    using m mset_array_sort[of compareScore ?sc] by (metis set_mset_mset)
  have rk: "rank q docs = take 5 ?srt"
    by (simp add: rank_def topK_of_def)
  have small: "?e \<in> set (rank q docs)" if "length docs \<le> 5"
  proof -
    have "length ?srt \<le> 5" using that by (simp add: length_array_sort)
    then show ?thesis using ms by (simp add: rk)
  qed
  have r: "?e \<in> set (rank q docs)"
    if fin: "\<forall>x \<in> set docs. \<exists>r. score_of q x = Num r"
      and cnt: "length (filter (\<lambda>x. 0 \<le> num_of (score_of q x)) docs) \<le> 5"
  proof -
    have "length (filter (\<lambda>x. 0 \<le> num_of (score x)) ?srt)
          = length (filter (\<lambda>x. 0 \<le> num_of (score x)) ?sc)"
      using mset_array_sort[of compareScore ?sc] by (metis mset_filter size_mset)
    also have "\<dots> = length (filter (\<lambda>x. 0 \<le> num_of (score_of q x)) docs)"
      by (simp add: scoredOf_def filter_map comp_def)
    finally have c: "length (filter (\<lambda>x. num_of (score ?e) \<le> num_of (score x)) ?srt) \<le> 5"
      using cnt by simp
    from in_take_sorted[OF rank_props(2)[OF fin] ms c] show ?thesis by (simp add: rk)
  qed
  have h1: "fst (chatRag_mem e cb w)
              = ChatOk (answerOr r ''(no answer)'') (map toTopChunk (rank q docs))"
    if "req_message cb = Some m" "\<not> blank (Some m)" "classify m = Question"
      "embedContent e m = Inr (Values q)" "\<not> keyNotConfigured e" "ragChunks w = docs"
      "generateContent e (RagPrompt m (contextText_mem (rank q docs))) = Inr r"
    using chatRag_mem_rank[OF that(1,2,3,5,4), of w] that(6,7) by simp
  have h2: "fst (chatRag e cb w)
              = ChatOk (answerOr r ''(no answer)'') (map toTopChunk (rank q docs))"
    if "req_message cb = Some m" "\<not> blank (Some m)" "classify m = Question"
      "embedContent e m = Inr (Values q)" "collectionGet e (ragChunks w) = Inr docs"
      "generateContent e (RagPrompt m (contextText (rank q docs))) = Inr r"
    using chatRag_rank(1)[OF that(1,2,3,4,5)] that(6) by simp
  from z zf m small r h1 h2 scoredFs_Some[of q docs] scoredFs_no_array[of docs qe]
  show ?thesis by (intro conjI impI) (simp_all (no_asm_simp))
qed

theorem non_array_embedding_scores_zero_witness:
  "score_of [Num 1, Num 0] (exampleDoc ''g'' NotArray) = Num 0
   \<and> scoreFs None (exampleDoc ''g'' NotArray) = Some (Num 0)
   \<and> with_score (exampleDoc ''g'' NotArray) (Num 0)
       \<in> set (rank [Num 1, Num 0]
                [exampleDoc ''a'' (Vec [Num 0, Num 1]), exampleDoc ''e'' (Vec [Num (- 1), Num 0]),
                 exampleDoc ''g'' NotArray])
   \<and> toTopChunk (with_score (exampleDoc ''g'' NotArray) (Num 0))
       \<in> set (map toTopChunk
               (rank [Num 1, Num 0]
                  [exampleDoc ''a'' (Vec [Num 0, Num 1]),
                   exampleDoc ''e'' (Vec [Num (- 1), Num 0]), exampleDoc ''g'' NotArray]))
   \<and> fst (chatRag_mem configuredEnv \<lparr>req_message = Some ''why''\<rparr>
            (storedWorld [exampleDoc ''a'' (Vec [Num 0, Num 1]),
                          exampleDoc ''e'' (Vec [Num (- 1), Num 0]), exampleDoc ''g'' NotArray]))
       = ChatOk ''hello''
           (map toTopChunk
              (rank [Num 1, Num 0]
                 [exampleDoc ''a'' (Vec [Num 0, Num 1]),
                  exampleDoc ''e'' (Vec [Num (- 1), Num 0]), exampleDoc ''g'' NotArray]))
   \<and> fst (chatRag configuredEnv \<lparr>req_message = Some ''why''\<rparr>
            (storedWorld [exampleDoc ''a'' (Vec [Num 0, Num 1]),
                          exampleDoc ''e'' (Vec [Num (- 1), Num 0]), exampleDoc ''g'' NotArray]))
       = ChatOk ''hello''
           (map toTopChunk
              (rank [Num 1, Num 0]
                 [exampleDoc ''a'' (Vec [Num 0, Num 1]),
                  exampleDoc ''e'' (Vec [Num (- 1), Num 0]), exampleDoc ''g'' NotArray]))"
proof -
  let ?docs = "[exampleDoc ''a'' (Vec [Num 0, Num 1]), exampleDoc ''e'' (Vec [Num (- 1), Num 0]),
                exampleDoc ''g'' NotArray]"
  let ?cb = "\<lparr>req_message = Some ''why''\<rparr>"
  let ?w = "storedWorld ?docs"
  have m: "exampleDoc ''g'' NotArray \<in> set ?docs" by simp
  have n: "embedding (exampleDoc ''g'' NotArray) = Missing
           \<or> embedding (exampleDoc ''g'' NotArray) = NotArray"
    by (simp add: exampleDoc_def)
  have f: "\<forall>x \<in> set ?docs. \<exists>r. score_of [Num 1, Num 0] x = Num r"
    by (simp add: example_scores)
  have c: "length (filter (\<lambda>x. 0 \<le> num_of (score_of [Num 1, Num 0] x)) ?docs) \<le> 5"
    by simp
  have a: "req_message ?cb = Some ''why''" by simp
  have b: "embedContent configuredEnv ''why'' = Inr (Values [Num 1, Num 0])"
    by (simp add: configuredEnv_def exampleEnv_def)
  have cg: "collectionGet configuredEnv (ragChunks ?w) = Inr ?docs"
    by (simp add: configuredEnv_def exampleEnv_def storedWorld_def)
  have k: "\<not> keyNotConfigured configuredEnv"
    by (simp add: keyNotConfigured_def configuredEnv_def)
  have g: "generateContent configuredEnv p = Inr (Some ''hello'')" for p
    by (simp add: configuredEnv_def exampleEnv_def)
  have w: "ragChunks ?w = ?docs" by (simp add: storedWorld_def)
  have ao: "answerOr (Some ''hello'') ''(no answer)'' = ''hello''"
    by (simp add: answerOr_def orElse_def)
  note t = non_array_embedding_scores_zero[OF m n, of "[Num 1, Num 0]" None ?cb "''why''"
      configuredEnv ?w "Some ''hello''"]
  from t have 1: "score_of [Num 1, Num 0] (exampleDoc ''g'' NotArray) = Num 0"
    and 2: "scoreFs None (exampleDoc ''g'' NotArray) = Some (Num 0)" by blast+
  from t f c have 3: "with_score (exampleDoc ''g'' NotArray) (Num 0)
                        \<in> set (rank [Num 1, Num 0] ?docs)" by blast
  from t a not_blank_why classify_why b 3 k w g cg
  have 4: "fst (chatRag_mem configuredEnv ?cb ?w)
             = ChatOk (answerOr (Some ''hello'') ''(no answer)'')
                 (map toTopChunk (rank [Num 1, Num 0] ?docs))
           \<and> toTopChunk (with_score (exampleDoc ''g'' NotArray) (Num 0))
               \<in> set (map toTopChunk (rank [Num 1, Num 0] ?docs))"
    and 5: "fst (chatRag configuredEnv ?cb ?w)
             = ChatOk (answerOr (Some ''hello'') ''(no answer)'')
                 (map toTopChunk (rank [Num 1, Num 0] ?docs))"
    by blast+
  from 1 2 3 4 5 show ?thesis unfolding ao by blast
qed


text \<open>
  Behind records whose score is \<^verbatim>\<open>NaN\<close> the order is the store's: the sixth record is
  left out, the one without an array like one that scores 1.
\<close>

lemma sixth_record_behind_nan:
  "map chunk_id
     (rank [Num 1, bigNumber]
        [exampleDoc ''1'' (Vec [Num 0, bigNumber]), exampleDoc ''2'' (Vec [Num 0, bigNumber]),
         exampleDoc ''3'' (Vec [Num 0, bigNumber]), exampleDoc ''4'' (Vec [Num 0, bigNumber]),
         exampleDoc ''5'' (Vec [Num 0, bigNumber]), exampleDoc ''6'' NotArray])
     = [''1'', ''2'', ''3'', ''4'', ''5'']"
  "map chunk_id
     (rank [Num 1, bigNumber]
        [exampleDoc ''1'' (Vec [Num 0, bigNumber]), exampleDoc ''2'' (Vec [Num 0, bigNumber]),
         exampleDoc ''3'' (Vec [Num 0, bigNumber]), exampleDoc ''4'' (Vec [Num 0, bigNumber]),
         exampleDoc ''5'' (Vec [Num 0, bigNumber]), exampleDoc ''6'' (Vec [Num 1])])
     = [''1'', ''2'', ''3'', ''4'', ''5'']"
proof -
  have "fl_round (2 ^ 600 * 2 ^ 600) = PosInfinity"
    by (rule fl_round_overflow) (simp add: huge_def)
  then have o: "js_mul bigNumber bigNumber = PosInfinity"
    by (simp only: bigNumber_def js_mul.simps)
  have s: "score_of [Num 1, bigNumber] (exampleDoc i NotArray) = Num 0"
    "score_of [Num 1, bigNumber] (exampleDoc i (Vec [Num 0, bigNumber])) = NaN"
    "score_of [Num 1, bigNumber] (exampleDoc i (Vec [Num 1])) = Num 1" for i
    by (simp_all add: score_of_def exampleDoc_def cosineSimilarity_def cosine_loop.simps o)
  show "map chunk_id
     (rank [Num 1, bigNumber]
        [exampleDoc ''1'' (Vec [Num 0, bigNumber]), exampleDoc ''2'' (Vec [Num 0, bigNumber]),
         exampleDoc ''3'' (Vec [Num 0, bigNumber]), exampleDoc ''4'' (Vec [Num 0, bigNumber]),
         exampleDoc ''5'' (Vec [Num 0, bigNumber]), exampleDoc ''6'' NotArray])
     = [''1'', ''2'', ''3'', ''4'', ''5'']"
    by (simp add: rank_def topK_of_def scoredOf_def s compareScore_def, simp add: exampleDoc_def)
  show "map chunk_id
     (rank [Num 1, bigNumber]
        [exampleDoc ''1'' (Vec [Num 0, bigNumber]), exampleDoc ''2'' (Vec [Num 0, bigNumber]),
         exampleDoc ''3'' (Vec [Num 0, bigNumber]), exampleDoc ''4'' (Vec [Num 0, bigNumber]),
         exampleDoc ''5'' (Vec [Num 0, bigNumber]), exampleDoc ''6'' (Vec [Num 1])])
     = [''1'', ''2'', ''3'', ''4'', ''5'']"
    by (simp add: rank_def topK_of_def scoredOf_def s compareScore_def, simp add: exampleDoc_def)
qed

subsection \<open>Rounding in ordinary scores\<close>

lemma sqrt_5: "js_sqrt (Num 5) = Num (5035177455121576 / 2 ^ 51)"
proof -
  have "fl_round (sqrt 5) = Num (of_int 5035177455121576 * 2 powi (- 51))"
  proof (rule fl_round_eval[where L = 1])
    show "2 powi 1 \<le> sqrt 5" by (simp add: real_le_rsqrt)
    show "sqrt 5 < 2 powi (1 + 1)" by (simp add: real_less_lsqrt)
    show "- 51 = max (1 - 52) emin" by (simp add: emin_def)
    show "(of_int 5035177455121576 - 1 / 2) * 2 powi (- 51) < sqrt 5"
      by (rule real_less_rsqrt) (simp add: power2_eq_square)
    show "sqrt 5 < (of_int 5035177455121576 + 1 / 2) * 2 powi (- 51)"
      by (rule real_less_lsqrt) (simp_all add: power2_eq_square)
    show "\<bar>of_int 5035177455121576 * 2 powi (- 51)\<bar> < huge" by (simp add: huge_def)
  qed
  then show ?thesis by (simp add: power_int_minus field_simps)
qed

lemma sqrt_2: "js_sqrt (Num 2) = Num (6369051672525773 / 2 ^ 52)"
proof -
  have "fl_round (sqrt 2) = Num (of_int 6369051672525773 * 2 powi (- 52))"
  proof (rule fl_round_eval[where L = 0])
    show "2 powi 0 \<le> sqrt 2" by (simp add: real_le_rsqrt)
    show "sqrt 2 < 2 powi (0 + 1)" by (simp add: real_less_lsqrt)
    show "- 52 = max (0 - 52) emin" by (simp add: emin_def)
    show "(of_int 6369051672525773 - 1 / 2) * 2 powi (- 52) < sqrt 2"
      by (rule real_less_rsqrt) (simp add: power2_eq_square)
    show "sqrt 2 < (of_int 6369051672525773 + 1 / 2) * 2 powi (- 52)"
      by (rule real_less_lsqrt) (simp_all add: power2_eq_square)
    show "\<bar>of_int 6369051672525773 * 2 powi (- 52)\<bar> < huge" by (simp add: huge_def)
  qed
  then show ?thesis by (simp add: power_int_minus field_simps)
qed

lemma sqrt_18: "js_sqrt (Num 18) = Num (4776788754394329 / 2 ^ 50)"
proof -
  have "fl_round (sqrt 18) = Num (of_int 4776788754394329 * 2 powi (- 50))"
  proof (rule fl_round_eval[where L = 2])
    show "2 powi 2 \<le> sqrt 18" by (simp add: real_le_rsqrt)
    show "sqrt 18 < 2 powi (2 + 1)" by (simp add: real_less_lsqrt)
    show "- 50 = max (2 - 52) emin" by (simp add: emin_def)
    show "(of_int 4776788754394329 - 1 / 2) * 2 powi (- 50) < sqrt 18"
      by (rule real_less_rsqrt) (simp add: power2_eq_square)
    show "sqrt 18 < (of_int 4776788754394329 + 1 / 2) * 2 powi (- 50)"
      by (rule real_less_lsqrt) (simp_all add: power2_eq_square)
    show "\<bar>of_int 4776788754394329 * 2 powi (- 50)\<bar> < huge" by (simp add: huge_def)
  qed
  then show ?thesis by (simp add: power_int_minus field_simps)
qed

lemma sqrt_5_squared: "js_mul (Num (5035177455121576 / 2 ^ 51)) (Num (5035177455121576 / 2 ^ 51)) = Num (5629499534213121 / 2 ^ 50)"
proof -
  have "fl_round (5035177455121576 / 2 ^ 51 * (5035177455121576 / 2 ^ 51)) = Num (of_int 5629499534213121 * 2 powi (- 50))"
  proof (rule fl_round_eval[where L = "2"])
    show "2 powi 2 \<le> (5035177455121576 / 2 ^ 51 * (5035177455121576 / 2 ^ 51)::real)" by (simp add: power_int_minus field_simps)
    show "(5035177455121576 / 2 ^ 51 * (5035177455121576 / 2 ^ 51)::real) < 2 powi (2 + 1)" by (simp add: power_int_minus field_simps)
    show "- 50 = max (2 - 52) emin" by (simp add: emin_def)
    show "(of_int 5629499534213121 - 1 / 2) * 2 powi (- 50) < (5035177455121576 / 2 ^ 51 * (5035177455121576 / 2 ^ 51)::real)"
      by (simp add: power_int_minus field_simps)
    show "(5035177455121576 / 2 ^ 51 * (5035177455121576 / 2 ^ 51)::real) < (of_int 5629499534213121 + 1 / 2) * 2 powi (- 50)"
      by (simp add: power_int_minus field_simps)
    show "\<bar>of_int 5629499534213121 * 2 powi (- 50)\<bar> < huge" by (simp add: huge_def)
  qed
  then show ?thesis by (simp add: power_int_minus field_simps)
qed

lemma five_over: "js_div (Num 5) (Num (5629499534213121 / 2 ^ 50)) = Num (9007199254740990 / 2 ^ 53)"
proof -
  have "fl_round (5 / (5629499534213121 / 2 ^ 50)) = Num (of_int 9007199254740990 * 2 powi (- 53))"
  proof (rule fl_round_eval[where L = "-1"])
    show "2 powi (- 1) \<le> (5 / (5629499534213121 / 2 ^ 50)::real)" by (simp add: power_int_minus field_simps)
    show "(5 / (5629499534213121 / 2 ^ 50)::real) < 2 powi ((- 1) + 1)" by (simp add: power_int_minus field_simps)
    show "- 53 = max ((- 1) - 52) emin" by (simp add: emin_def)
    show "(of_int 9007199254740990 - 1 / 2) * 2 powi (- 53) < (5 / (5629499534213121 / 2 ^ 50)::real)"
      by (simp add: power_int_minus field_simps)
    show "(5 / (5629499534213121 / 2 ^ 50)::real) < (of_int 9007199254740990 + 1 / 2) * 2 powi (- 53)"
      by (simp add: power_int_minus field_simps)
    show "\<bar>of_int 9007199254740990 * 2 powi (- 53)\<bar> < huge" by (simp add: huge_def)
  qed
  then show ?thesis by (simp add: power_int_minus field_simps)
qed

lemma one_times_sqrt_2: "js_mul (Num 1) (Num (6369051672525773 / 2 ^ 52)) = Num (6369051672525773 / 2 ^ 52)"
proof -
  have "fl_round (1 * (6369051672525773 / 2 ^ 52)) = Num (of_int 6369051672525773 * 2 powi (- 52))"
  proof (rule fl_round_eval[where L = "0"])
    show "2 powi 0 \<le> (1 * (6369051672525773 / 2 ^ 52)::real)" by (simp add: power_int_minus field_simps)
    show "(1 * (6369051672525773 / 2 ^ 52)::real) < 2 powi (0 + 1)" by (simp add: power_int_minus field_simps)
    show "- 52 = max (0 - 52) emin" by (simp add: emin_def)
    show "(of_int 6369051672525773 - 1 / 2) * 2 powi (- 52) < (1 * (6369051672525773 / 2 ^ 52)::real)"
      by (simp add: power_int_minus field_simps)
    show "(1 * (6369051672525773 / 2 ^ 52)::real) < (of_int 6369051672525773 + 1 / 2) * 2 powi (- 52)"
      by (simp add: power_int_minus field_simps)
    show "\<bar>of_int 6369051672525773 * 2 powi (- 52)\<bar> < huge" by (simp add: huge_def)
  qed
  then show ?thesis by (simp add: power_int_minus field_simps)
qed

lemma one_times_sqrt_18: "js_mul (Num 1) (Num (4776788754394329 / 2 ^ 50)) = Num (4776788754394329 / 2 ^ 50)"
proof -
  have "fl_round (1 * (4776788754394329 / 2 ^ 50)) = Num (of_int 4776788754394329 * 2 powi (- 50))"
  proof (rule fl_round_eval[where L = "2"])
    show "2 powi 2 \<le> (1 * (4776788754394329 / 2 ^ 50)::real)" by (simp add: power_int_minus field_simps)
    show "(1 * (4776788754394329 / 2 ^ 50)::real) < 2 powi (2 + 1)" by (simp add: power_int_minus field_simps)
    show "- 50 = max (2 - 52) emin" by (simp add: emin_def)
    show "(of_int 4776788754394329 - 1 / 2) * 2 powi (- 50) < (1 * (4776788754394329 / 2 ^ 50)::real)"
      by (simp add: power_int_minus field_simps)
    show "(1 * (4776788754394329 / 2 ^ 50)::real) < (of_int 4776788754394329 + 1 / 2) * 2 powi (- 50)"
      by (simp add: power_int_minus field_simps)
    show "\<bar>of_int 4776788754394329 * 2 powi (- 50)\<bar> < huge" by (simp add: huge_def)
  qed
  then show ?thesis by (simp add: power_int_minus field_simps)
qed

lemma one_over_sqrt_2: "js_div (Num 1) (Num (6369051672525773 / 2 ^ 52)) = Num (6369051672525772 / 2 ^ 53)"
proof -
  have "fl_round (1 / (6369051672525773 / 2 ^ 52)) = Num (of_int 6369051672525772 * 2 powi (- 53))"
  proof (rule fl_round_eval[where L = "-1"])
    show "2 powi (- 1) \<le> (1 / (6369051672525773 / 2 ^ 52)::real)" by (simp add: power_int_minus field_simps)
    show "(1 / (6369051672525773 / 2 ^ 52)::real) < 2 powi ((- 1) + 1)" by (simp add: power_int_minus field_simps)
    show "- 53 = max ((- 1) - 52) emin" by (simp add: emin_def)
    show "(of_int 6369051672525772 - 1 / 2) * 2 powi (- 53) < (1 / (6369051672525773 / 2 ^ 52)::real)"
      by (simp add: power_int_minus field_simps)
    show "(1 / (6369051672525773 / 2 ^ 52)::real) < (of_int 6369051672525772 + 1 / 2) * 2 powi (- 53)"
      by (simp add: power_int_minus field_simps)
    show "\<bar>of_int 6369051672525772 * 2 powi (- 53)\<bar> < huge" by (simp add: huge_def)
  qed
  then show ?thesis by (simp add: power_int_minus field_simps)
qed

lemma three_over_sqrt_18: "js_div (Num 3) (Num (4776788754394329 / 2 ^ 50)) = Num (6369051672525773 / 2 ^ 53)"
proof -
  have "fl_round (3 / (4776788754394329 / 2 ^ 50)) = Num (of_int 6369051672525773 * 2 powi (- 53))"
  proof (rule fl_round_eval[where L = "-1"])
    show "2 powi (- 1) \<le> (3 / (4776788754394329 / 2 ^ 50)::real)" by (simp add: power_int_minus field_simps)
    show "(3 / (4776788754394329 / 2 ^ 50)::real) < 2 powi ((- 1) + 1)" by (simp add: power_int_minus field_simps)
    show "- 53 = max ((- 1) - 52) emin" by (simp add: emin_def)
    show "(of_int 6369051672525773 - 1 / 2) * 2 powi (- 53) < (3 / (4776788754394329 / 2 ^ 50)::real)"
      by (simp add: power_int_minus field_simps)
    show "(3 / (4776788754394329 / 2 ^ 50)::real) < (of_int 6369051672525773 + 1 / 2) * 2 powi (- 53)"
      by (simp add: power_int_minus field_simps)
    show "\<bar>of_int 6369051672525773 * 2 powi (- 53)\<bar> < huge" by (simp add: huge_def)
  qed
  then show ?thesis by (simp add: power_int_minus field_simps)
qed


text \<open>
  Rounding shows in ordinary scores. The cosine of a vector with itself need not be 1,
  and two records in the same direction need not tie: here the record stored second is
  ranked first.
\<close>

lemma cosineSimilarity_rounds:
  "cosineSimilarity [Num 1, Num 2] [Num 1, Num 2] = Num (9007199254740990 / 2 ^ 53)"
proof -
  have "cosineSimilarity [Num 1, Num 2] [Num 1, Num 2]
          = js_div (Num 5) (js_mul (js_sqrt (Num 5)) (js_sqrt (Num 5)))"
    by (simp add: cosineSimilarity_def cosine_loop.simps)
  then show ?thesis by (simp only: sqrt_5 sqrt_5_squared five_over)
qed

lemma rank_rounds:
  "map chunk_id (rank [Num 1, Num 0]
      [exampleDoc ''A'' (Vec [Num 1, Num 1]), exampleDoc ''B'' (Vec [Num 3, Num 3])])
     = [''B'', ''A'']"
  "map score (rank [Num 1, Num 0]
      [exampleDoc ''A'' (Vec [Num 1, Num 1]), exampleDoc ''B'' (Vec [Num 3, Num 3])])
     = [Num (6369051672525773 / 2 ^ 53), Num (6369051672525772 / 2 ^ 53)]"
proof -
  have "cosineSimilarity [Num 1, Num 0] [Num 1, Num 1]
          = js_div (Num 1) (js_mul (js_sqrt (Num 1)) (js_sqrt (Num 2)))"
    by (simp add: cosineSimilarity_def cosine_loop.simps)
  then have a: "cosineSimilarity [Num 1, Num 0] [Num 1, Num 1] = Num (6369051672525772 / 2 ^ 53)"
    by (simp only: sqrt_2 js_sqrt_simps one_times_sqrt_2 one_over_sqrt_2)
  have "cosineSimilarity [Num 1, Num 0] [Num 3, Num 3]
          = js_div (Num 3) (js_mul (js_sqrt (Num 1)) (js_sqrt (Num 18)))"
    by (simp add: cosineSimilarity_def cosine_loop.simps)
  then have b: "cosineSimilarity [Num 1, Num 0] [Num 3, Num 3] = Num (6369051672525773 / 2 ^ 53)"
    by (simp only: sqrt_18 js_sqrt_simps one_times_sqrt_18 three_over_sqrt_18)
  have "fl_round (of_int 1 * 2 powi (- 53)) = Num (of_int 1 * 2 powi (- 53))"
    by (rule fl_round_exact[where m = 1 and q = "- 53"])
       (simp_all add: emin_def huge_def power_int_minus)
  then have c: "js_positive (js_sub (Num (6369051672525773 / 2 ^ 53))
                                    (Num (6369051672525772 / 2 ^ 53)))"
    by (simp add: power_int_minus field_simps)
  have r: "rank [Num 1, Num 0]
             [exampleDoc ''A'' (Vec [Num 1, Num 1]), exampleDoc ''B'' (Vec [Num 3, Num 3])]
           = [with_score (exampleDoc ''B'' (Vec [Num 3, Num 3])) (Num (6369051672525773 / 2 ^ 53)),
              with_score (exampleDoc ''A'' (Vec [Num 1, Num 1])) (Num (6369051672525772 / 2 ^ 53))]"
    unfolding rank_def topK_of_def scoredOf_def score_of_def
    using c by (simp add: exampleDoc_def a b compareScore_def del: js_sub.simps)
  show "map chunk_id (rank [Num 1, Num 0]
      [exampleDoc ''A'' (Vec [Num 1, Num 1]), exampleDoc ''B'' (Vec [Num 3, Num 3])])
     = [''B'', ''A'']"
    unfolding r by (simp add: exampleDoc_def)
  show "map score (rank [Num 1, Num 0]
      [exampleDoc ''A'' (Vec [Num 1, Num 1]), exampleDoc ''B'' (Vec [Num 3, Num 3])])
     = [Num (6369051672525773 / 2 ^ 53), Num (6369051672525772 / 2 ^ 53)]"
    unfolding r by simp
qed

subsection \<open>Context assembly\<close>

lemma contextEntry_section: "contextEntry d i = section_spec (Suc i) d"
  by (simp add: contextEntry_def section_spec_def)

lemma join_entries:
  "join [nl, nl] (map (\<lambda>(i, d). contextEntry d i) (enumerate n ds)) = context_block_spec (Suc n) ds"
  by (induction "Suc n" ds arbitrary: n rule: context_block_spec.induct)
     (simp_all add: contextEntry_section)

lemma contextText_sections: "contextText topK = context_block_spec 1 topK"
  by (simp add: contextText_def join_entries)

lemma contextText_loop_unfold:
  "i \<le> length topK \<Longrightarrow>
   contextText_loop topK i ctx =
     ctx @ concat (map (\<lambda>(j, d). contextEntry d j @ [nl, nl]) (enumerate i (drop i topK)))"
proof (induction topK i ctx rule: contextText_loop.induct)
  case (1 topK i ctx)
  show ?case
  proof (cases "i < length topK")
    case True
    then have d: "drop i topK = topK ! i # drop (Suc i) topK"
      by (simp add: Cons_nth_drop_Suc)
    from True have "Suc i \<le> length topK" by simp
    from "1.IH"[OF True this] True show ?thesis
      by (subst contextText_loop.simps) (simp add: d)
  next
    case False
    with "1.prems" show ?thesis by (subst contextText_loop.simps) simp
  qed
qed

lemma terminated_entries:
  "concat (map (\<lambda>(j, d). contextEntry d j @ [nl, nl]) (enumerate n ds)) =
     (if ds = [] then [] else context_block_spec (Suc n) ds @ [nl, nl])"
  by (induction "Suc n" ds arbitrary: n rule: context_block_spec.induct)
     (simp_all add: contextEntry_section)

lemma contextText_mem_sections:
  "contextText_mem topK = (if topK = [] then [] else context_block_spec 1 topK @ [nl, nl])"
  by (simp add: contextText_mem_def contextText_loop_unfold terminated_entries)

lemma natToString_1: "natToString (Suc 0) = ''1''" by (simp add: natToString.simps digit_def)
lemma natToString_1000: "natToString 1000 = ''1000''" by (simp add: natToString.simps digit_def)
lemma toFixed3_1: "toFixed3 (Num 1) = ''1.000''"
  by (simp add: toFixed3_def natToString_1000)

text \<open>
  C5. The block of \<open>K\<close> candidates is \<open>K\<close> sections in rank order, each a header line and
  the candidate's text, two consecutive sections one blank line apart, nothing after the
  last one, and the empty block for no candidate. The block built with \<open>join\<close> is that
  (\<open>contextText_sections\<close>); the loop of the in-memory server appends the separator after
  every section, the last one included (\<open>contextText_mem_sections\<close>), as the evaluation
  below shows for one candidate.
\<close>

theorem contextText_mem_trailing_separator:
  "contextText_mem [with_score (exampleDoc ''7'' (Vec [Num 1])) (Num 1)]
     = ''[#1 | doc:n | score=1.000]'' @ [nl] @ ''t'' @ [nl, nl]
   \<and> contextText [with_score (exampleDoc ''7'' (Vec [Num 1])) (Num 1)]
     = ''[#1 | doc:n | score=1.000]'' @ [nl] @ ''t''
   \<and> contextText_mem [with_score (exampleDoc ''7'' (Vec [Num 1])) (Num 1)]
     \<noteq> context_block_spec 1 [with_score (exampleDoc ''7'' (Vec [Num 1])) (Num 1)]"
  by (simp add: contextText_mem_sections contextText_sections section_spec_def
        natToString_1 toFixed3_1 exampleDoc_def)
subsection \<open>The query classifier: tokens\<close>

lemma split_ws_tokens:
  "filter (\<lambda>w. w \<noteq> []) (split_ws cur s) =
     (let t = cur @ takeWhile (\<lambda>c. \<not> isWhiteSpace c) s
      in (if t = [] then [] else [t]) @ tokens_spec (dropWhile (\<lambda>c. \<not> isWhiteSpace c) s))"
proof (induction cur s rule: split_ws.induct)
  case (1 cur)
  show ?case by (simp add: tokens_spec.simps[of "[]"])
next
  case (2 cur c cs)
  show ?case
  proof (cases "isWhiteSpace c")
    case True
    define s' where "s' = dropWhile isWhiteSpace cs"
    define tw where "tw = takeWhile (\<lambda>c. \<not> isWhiteSpace c) s'"
    define rest where "rest = dropWhile (\<lambda>c. \<not> isWhiteSpace c) s'"
    have tok: "tokens_spec (c # cs) = (if s' = [] then [] else tw # tokens_spec rest)"
      using True by (subst tokens_spec.simps) (simp add: Let_def s'_def tw_def rest_def)
    have ih: "filter (\<lambda>w. w \<noteq> []) (split_ws [] s') =
                (if tw = [] then [] else [tw]) @ tokens_spec rest"
      using "2.IH"(1)[OF True] by (simp add: Let_def s'_def tw_def rest_def)
    have key: "filter (\<lambda>w. w \<noteq> []) (split_ws [] s') = tokens_spec (c # cs)"
    proof (cases "s' = []")
      case True
      then have "tw = []" "rest = []" by (simp_all add: tw_def rest_def)
      then show ?thesis using ih tok True by (simp add: tokens_spec.simps[of "[]"])
    next
      case False
      then have "\<not> isWhiteSpace (hd s')"
        unfolding s'_def by (rule hd_dropWhile)
      then have "tw \<noteq> []" using False by (cases s') (simp_all add: tw_def)
      then show ?thesis using ih tok False by simp
    qed
    have "split_ws cur (c # cs) = cur # split_ws [] s'"
      using True by (simp add: s'_def)
    then show ?thesis using key True by (simp add: Let_def)
  next
    case False
    from "2.IH"(2)[OF False] False show ?thesis by (simp add: Let_def)
  qed
qed

lemma wordCount_tokens: "wordCount s = length (tokens_spec s)"
proof -
  have "tokens_spec s =
     (let t = takeWhile (\<lambda>c. \<not> isWhiteSpace c) s
      in (if t = [] then [] else [t]) @ tokens_spec (dropWhile (\<lambda>c. \<not> isWhiteSpace c) s))"
  proof (cases s)
    case Nil
    then show ?thesis by (simp add: tokens_spec.simps[of "[]"])
  next
    case (Cons c cs)
    show ?thesis
    proof (cases "isWhiteSpace c")
      case True
      then show ?thesis using Cons by (simp add: Let_def)
    next
      case False
      then show ?thesis using Cons by (subst tokens_spec.simps) (simp add: Let_def)
    qed
  qed
  then show ?thesis
    using split_ws_tokens[of "[]" s] by (simp add: wordCount_def Let_def)
qed


subsection \<open>The query classifier: the greeting pattern\<close>

lemma rmatch_Str:
  "w \<noteq> [] \<Longrightarrow> (q, r) \<in> set (rmatch (Str w) (p, s)) \<longleftrightarrow> q = Some (last w) \<and> s = w @ r"
proof -
  have "take (length w) s = w \<and> r = drop (length w) s \<longleftrightarrow> s = w @ r"
    by (metis append_eq_conv_conj)
  then show "w \<noteq> [] \<Longrightarrow> ?thesis" by auto
qed

lemma take_takeWhile_replicate:
  assumes "k \<le> length (takeWhile (\<lambda>x. x = c) s)"
  shows "take k s = replicate k c"
proof -
  have "take k s = take k (takeWhile (\<lambda>x. x = c) s @ dropWhile (\<lambda>x. x = c) s)" by simp
  also have "\<dots> = take k (takeWhile (\<lambda>x. x = c) s)" using assms by (simp del: takeWhile_dropWhile_id)
  finally have t: "take k s = take k (takeWhile (\<lambda>x. x = c) s)" .
  have "\<forall>y \<in> set (take k s). y = c"
    unfolding t by (auto dest!: in_set_takeD set_takeWhileD)
  moreover have "length (take k s) = k"
    using assms length_takeWhile_le[of "\<lambda>x. x = c" s] by simp
  ultimately show ?thesis by (metis replicate_length_same)
qed

lemma rmatch_PlusChr:
  "(q, r) \<in> set (rmatch (PlusChr c) (p, s)) \<longleftrightarrow> q = Some c \<and> (\<exists>n\<ge>1. s = replicate n c @ r)"
proof
  assume "(q, r) \<in> set (rmatch (PlusChr c) (p, s))"
  then obtain k where k: "1 \<le> k" "k \<le> length (takeWhile (\<lambda>x. x = c) s)"
    and q: "q = Some c" and r: "r = drop k s"
    by auto
  have "s = take k s @ drop k s" by simp
  with take_takeWhile_replicate[OF k(2)] r have "s = replicate k c @ r" by simp
  with k(1) q show "q = Some c \<and> (\<exists>n\<ge>1. s = replicate n c @ r)" by blast
next
  assume "q = Some c \<and> (\<exists>n\<ge>1. s = replicate n c @ r)"
  then obtain n where q: "q = Some c" and n: "1 \<le> n" and s: "s = replicate n c @ r" by blast
  have "takeWhile (\<lambda>x. x = c) s = replicate n c @ takeWhile (\<lambda>x. x = c) r"
    unfolding s by (rule takeWhile_append2) simp
  then have "n \<le> length (takeWhile (\<lambda>x. x = c) s)" by simp
  moreover have "r = drop n s" by (simp add: s)
  ultimately have "n \<in> set [1..<Suc (length (takeWhile (\<lambda>x. x = c) s))]" and "r = drop n s"
    using n by auto
  then have "(q, r) \<in> (\<lambda>k. (Some c, drop k s)) ` set [1..<Suc (length (takeWhile (\<lambda>x. x = c) s))]"
    using q by blast
  then show "(q, r) \<in> set (rmatch (PlusChr c) (p, s))"
    by (simp only: rmatch.simps set_map)
qed

lemma rmatch_Cat:
  "st'' \<in> set (rmatch (Cat r1 r2) st) \<longleftrightarrow> (\<exists>st' \<in> set (rmatch r1 st). st'' \<in> set (rmatch r2 st'))"
  by auto

lemma rmatch_Alt:
  "st' \<in> set (rmatch (Alt r1 r2) st) \<longleftrightarrow> st' \<in> set (rmatch r1 st) \<or> st' \<in> set (rmatch r2 st)"
  by auto

lemma stretched_iff:
  "stretched_spec stem c w \<longleftrightarrow> (\<exists>n\<ge>1. w = stem @ replicate n c)"
proof
  assume a: "stretched_spec stem c w"
  define t where "t = drop (length stem) w"
  from a have "take (length stem) w = stem" by (simp add: stretched_spec_def)
  then have "stem @ t = w" unfolding t_def by (metis append_take_drop_id)
  moreover from a have "\<forall>y \<in> set t. y = c" by (simp add: stretched_spec_def list_all_iff t_def)
  then have "replicate (length t) c = t" by (rule replicate_length_same)
  moreover have "1 \<le> length t"
  proof -
    from a have "length stem < length w" by (simp add: stretched_spec_def)
    then show ?thesis by (simp add: t_def)
  qed
  ultimately have "1 \<le> length t \<and> w = stem @ replicate (length t) c" by simp
  then show "\<exists>n\<ge>1. w = stem @ replicate n c" by (rule exI[of _ "length t"])
next
  assume "\<exists>n\<ge>1. w = stem @ replicate n c"
  then obtain n where "1 \<le> n" "w = stem @ replicate n c" by blast
  then show "stretched_spec stem c w" by (simp add: stretched_spec_def list_all_iff)
qed

lemma rmatch_stretched:
  assumes "stem \<noteq> []"
  shows "(q, r) \<in> set (rmatch (Cat (Str stem) (PlusChr c)) (p, s))
         \<longleftrightarrow> (\<exists>w. s = w @ r \<and> stretched_spec stem c w \<and> q = Some (last w))"
proof -
  have "(q, r) \<in> set (rmatch (Cat (Str stem) (PlusChr c)) (p, s))
        \<longleftrightarrow> (\<exists>q' r'. (q', r') \<in> set (rmatch (Str stem) (p, s)) \<and> (q, r) \<in> set (rmatch (PlusChr c) (q', r')))"
    unfolding rmatch_Cat by auto
  also have "\<dots> \<longleftrightarrow> (\<exists>r'. s = stem @ r' \<and> q = Some c \<and> (\<exists>n\<ge>1. r' = replicate n c @ r))"
    unfolding rmatch_Str[OF assms] rmatch_PlusChr by blast
  also have "\<dots> \<longleftrightarrow> (\<exists>w. s = w @ r \<and> (\<exists>n\<ge>1. w = stem @ replicate n c) \<and> q = Some (last w))"
  proof
    assume "\<exists>r'. s = stem @ r' \<and> q = Some c \<and> (\<exists>n\<ge>1. r' = replicate n c @ r)"
    then obtain r' n where h: "s = stem @ r'" "q = Some c" "1 \<le> n" "r' = replicate n c @ r"
      by blast
    let ?w = "stem @ replicate n c"
    have "last ?w = c" using h(3) by simp
    with h have "s = ?w @ r \<and> (\<exists>n\<ge>1. ?w = stem @ replicate n c) \<and> q = Some (last ?w)"
      by auto
    then show "\<exists>w. s = w @ r \<and> (\<exists>n\<ge>1. w = stem @ replicate n c) \<and> q = Some (last w)" ..
  next
    assume "\<exists>w. s = w @ r \<and> (\<exists>n\<ge>1. w = stem @ replicate n c) \<and> q = Some (last w)"
    then obtain w n where h: "s = w @ r" "1 \<le> n" "w = stem @ replicate n c" "q = Some (last w)"
      by blast
    have "last w = c" using h(2,3) by simp
    with h have "s = stem @ (replicate n c @ r) \<and> q = Some c \<and> (\<exists>m\<ge>1. replicate n c @ r = replicate m c @ r)"
      by auto
    then show "\<exists>r'. s = stem @ r' \<and> q = Some c \<and> (\<exists>n\<ge>1. r' = replicate n c @ r)" by blast
  qed
  finally show ?thesis unfolding stretched_iff .
qed


lemma rmatch_Cat_Str:
  assumes "w \<noteq> []"
  shows "(q, r) \<in> set (rmatch (Cat (Str w) X) (p, s))
         \<longleftrightarrow> (\<exists>r'. s = w @ r' \<and> (q, r) \<in> set (rmatch X (Some (last w), r')))"
proof (cases "take (length w) s = w")
  case True
  then have s: "s = w @ drop (length w) s" by (metis append_take_drop_id)
  have "rmatch (Cat (Str w) X) (p, s) = rmatch X (Some (last w), drop (length w) s)"
    using True assms by simp
  moreover have "(\<exists>r'. s = w @ r' \<and> (q, r) \<in> set (rmatch X (Some (last w), r')))
        \<longleftrightarrow> (q, r) \<in> set (rmatch X (Some (last w), drop (length w) s))"
    using s by (metis same_append_eq)
  ultimately show ?thesis by simp
next
  case False
  then have "\<And>r'. s \<noteq> w @ r'" by auto
  moreover have "rmatch (Cat (Str w) X) (p, s) = []" using False by simp
  ultimately show ?thesis by simp
qed

lemma ex_four:
  "(\<exists>w. P w \<and> (w = a \<or> w = b \<or> w = c \<or> w = d)) \<longleftrightarrow> P a \<or> P b \<or> P c \<or> P d"
  by blast

lemma rmatch_good:
  "(q, r) \<in> set (rmatch (Cat (Str ''good '')
                      (Alt (Str ''morning'') (Alt (Str ''evening'')
                      (Alt (Str ''afternoon'') (Str ''night''))))) (p, s))
   \<longleftrightarrow> (\<exists>w. (s = w @ r \<and> q = Some (last w))
           \<and> (w = ''good morning'' \<or> w = ''good evening'' \<or> w = ''good afternoon''
                \<or> w = ''good night''))"
  (is "?L \<longleftrightarrow> ?R")
proof -
  have ne: "''good '' \<noteq> []" "''morning'' \<noteq> []" "''evening'' \<noteq> []" "''afternoon'' \<noteq> []"
    "''night'' \<noteq> []" by simp_all
  have one: "(\<exists>r'. s = ''good '' @ r' \<and> q = Some (last x) \<and> r' = x @ r)
             \<longleftrightarrow> s = ''good '' @ x @ r \<and> q = Some (last x)" for x
    by blast
  have "?L \<longleftrightarrow> (\<exists>r'. s = ''good '' @ r'
                  \<and> ((q = Some (last ''morning'') \<and> r' = ''morning'' @ r)
                     \<or> (q = Some (last ''evening'') \<and> r' = ''evening'' @ r)
                     \<or> (q = Some (last ''afternoon'') \<and> r' = ''afternoon'' @ r)
                     \<or> (q = Some (last ''night'') \<and> r' = ''night'' @ r)))"
    by (simp only: rmatch_Cat_Str[OF ne(1)] rmatch_Alt rmatch_Str[OF ne(2)] rmatch_Str[OF ne(3)]
          rmatch_Str[OF ne(4)] rmatch_Str[OF ne(5)])
  also have "\<dots> \<longleftrightarrow> (s = ''good '' @ ''morning'' @ r \<and> q = Some (last ''morning''))
                 \<or> (s = ''good '' @ ''evening'' @ r \<and> q = Some (last ''evening''))
                 \<or> (s = ''good '' @ ''afternoon'' @ r \<and> q = Some (last ''afternoon''))
                 \<or> (s = ''good '' @ ''night'' @ r \<and> q = Some (last ''night''))"
    by (simp only: conj_disj_distribL ex_disj_distrib one)
  also have "\<dots> \<longleftrightarrow> ?R"
    by (simp only: ex_four) simp
  finally show ?thesis .
qed

lemma ex_disj6:
  "(\<exists>w. F w \<and> (A w \<or> B w \<or> C w \<or> D w \<or> (w = a \<or> w = b \<or> w = c \<or> w = d \<or> w = e)) \<and> G w)
   \<longleftrightarrow> (\<exists>w. F w \<and> A w \<and> G w) \<or> (\<exists>w. F w \<and> B w \<and> G w) \<or> (\<exists>w. F w \<and> C w \<and> G w)
       \<or> (\<exists>w. F w \<and> D w \<and> G w) \<or> (F a \<and> G a)
       \<or> (\<exists>w. (F w \<and> G w) \<and> (w = b \<or> w = c \<or> w = d \<or> w = e))"
  by blast

lemma rmatch_greetingWords:
  "(q, r) \<in> set (rmatch greetingWords (p, s))
   \<longleftrightarrow> (\<exists>w. s = w @ r \<and> greeting_word_spec w \<and> q = Some (last w))"
  (is "?L \<longleftrightarrow> ?R")
proof -
  have ne: "''h'' \<noteq> []" "''hell'' \<noteq> []" "''he'' \<noteq> []" "''y'' \<noteq> []" "''sup'' \<noteq> []"
    by simp_all
  have "?L \<longleftrightarrow> (\<exists>w. s = w @ r \<and> stretched_spec ''h'' (CHR ''i'') w \<and> q = Some (last w))
             \<or> (\<exists>w. s = w @ r \<and> stretched_spec ''hell'' (CHR ''o'') w \<and> q = Some (last w))
             \<or> (\<exists>w. s = w @ r \<and> stretched_spec ''he'' (CHR ''y'') w \<and> q = Some (last w))
             \<or> (\<exists>w. s = w @ r \<and> stretched_spec ''y'' (CHR ''o'') w \<and> q = Some (last w))
             \<or> (s = ''sup'' @ r \<and> q = Some (last ''sup''))
             \<or> (\<exists>w. (s = w @ r \<and> q = Some (last w))
                   \<and> (w = ''good morning'' \<or> w = ''good evening'' \<or> w = ''good afternoon''
                        \<or> w = ''good night''))"
    unfolding greetingWords_def
    by (simp only: rmatch_Alt rmatch_stretched[OF ne(1)] rmatch_stretched[OF ne(2)]
          rmatch_stretched[OF ne(3)] rmatch_stretched[OF ne(4)] rmatch_good
          rmatch_Str[OF ne(5)] conj_commute[of "q = _" "s = _"])
  also have "\<dots> \<longleftrightarrow> ?R"
    unfolding greeting_word_spec_def
    by (simp only: list.set insert_iff empty_iff ex_disj6 simp_thms)
  finally show ?thesis .
qed


lemma greeting_word_nonempty: "greeting_word_spec w \<Longrightarrow> w \<noteq> []"
  by (auto simp: greeting_word_spec_def stretched_spec_def)

lemma rmatch_WordB_boundary:
  assumes "w \<noteq> []"
  shows "rmatch WordB (Some (last w), r) \<noteq> [] \<longleftrightarrow> word_boundary_spec w r"
  using assms by (cases r) (simp_all add: word_boundary_spec_def)

lemma regex_test_start:
  "regex_test (Cat StartAnchor R) s \<longleftrightarrow> rmatch R (None, s) \<noteq> []"
proof -
  have z: "rmatch (Cat StartAnchor R) (None, s') = rmatch R (None, s')" for s' by simp
  have nz: "rmatch (Cat StartAnchor R) (Some c, s') = []" for c s' by simp
  have "regex_test (Cat StartAnchor R) s \<longleftrightarrow>
        (\<exists>i \<in> set [0..<Suc (length s)].
            rmatch (Cat StartAnchor R) (if i = 0 then None else Some (s ! (i - 1)), drop i s) \<noteq> [])"
    by (simp only: regex_test_def list_ex_iff)
  also have "\<dots> \<longleftrightarrow> rmatch R (None, s) \<noteq> []"
  proof
    assume "\<exists>i \<in> set [0..<Suc (length s)].
            rmatch (Cat StartAnchor R) (if i = 0 then None else Some (s ! (i - 1)), drop i s) \<noteq> []"
    then obtain i where i: "rmatch (Cat StartAnchor R) (if i = 0 then None else Some (s ! (i - 1)), drop i s) \<noteq> []"
      by blast
    show "rmatch R (None, s) \<noteq> []"
    proof (cases "i = 0")
      case True
      with i show ?thesis by simp
    next
      case False
      with i show ?thesis by simp
    qed
  next
    assume "rmatch R (None, s) \<noteq> []"
    then have "rmatch (Cat StartAnchor R) (if (0::nat) = 0 then None else Some (s ! (0 - 1)), drop 0 s) \<noteq> []"
      by simp
    moreover have "(0::nat) \<in> set [0..<Suc (length s)]" by simp
    ultimately show "\<exists>i \<in> set [0..<Suc (length s)].
            rmatch (Cat StartAnchor R) (if i = 0 then None else Some (s ! (i - 1)), drop i s) \<noteq> []"
      by blast
  qed
  finally show ?thesis .
qed

lemma starts_with_greeting_spec_iff:
  "starts_with_greeting_spec s \<longleftrightarrow>
     (\<exists>w r. s = w @ r \<and> greeting_word_spec w \<and> word_boundary_spec w r)"
proof
  assume "starts_with_greeting_spec s"
  then obtain k where "greeting_word_spec (take k s)" "word_boundary_spec (take k s) (drop k s)"
    unfolding starts_with_greeting_spec_def list_ex_iff by blast
  moreover have "s = take k s @ drop k s" by simp
  ultimately show "\<exists>w r. s = w @ r \<and> greeting_word_spec w \<and> word_boundary_spec w r" by blast
next
  assume "\<exists>w r. s = w @ r \<and> greeting_word_spec w \<and> word_boundary_spec w r"
  then obtain w r where h: "s = w @ r" "greeting_word_spec w" "word_boundary_spec w r" by blast
  then have "greeting_word_spec (take (length w) s)"
    "word_boundary_spec (take (length w) s) (drop (length w) s)" by simp_all
  moreover have "length w \<in> set [0..<Suc (length s)]" using h(1) by simp
  ultimately show "starts_with_greeting_spec s"
    unfolding starts_with_greeting_spec_def list_ex_iff by blast
qed

lemma isGreeting_spec: "regex_test greetingRegex s \<longleftrightarrow> starts_with_greeting_spec s"
proof -
  have "regex_test greetingRegex s \<longleftrightarrow> rmatch (Cat greetingWords WordB) (None, s) \<noteq> []"
    unfolding greetingRegex_def by (rule regex_test_start)
  also have "\<dots> \<longleftrightarrow> (\<exists>q r. (q, r) \<in> set (rmatch greetingWords (None, s)) \<and> rmatch WordB (q, r) \<noteq> [])"
    by (auto simp del: rmatch.simps(1,2,5,6) simp: rmatch.simps(3))
  also have "\<dots> \<longleftrightarrow> (\<exists>w r. s = w @ r \<and> greeting_word_spec w \<and> word_boundary_spec w r)"
  proof
    assume "\<exists>q r. (q, r) \<in> set (rmatch greetingWords (None, s)) \<and> rmatch WordB (q, r) \<noteq> []"
    then obtain q r where a: "(q, r) \<in> set (rmatch greetingWords (None, s))"
      and b: "rmatch WordB (q, r) \<noteq> []" by blast
    from a obtain w where w: "s = w @ r" "greeting_word_spec w" "q = Some (last w)"
      unfolding rmatch_greetingWords by blast
    from b w(3) rmatch_WordB_boundary[OF greeting_word_nonempty[OF w(2)], of r]
    have "word_boundary_spec w r" by simp
    with w show "\<exists>w r. s = w @ r \<and> greeting_word_spec w \<and> word_boundary_spec w r" by blast
  next
    assume "\<exists>w r. s = w @ r \<and> greeting_word_spec w \<and> word_boundary_spec w r"
    then obtain w r where w: "s = w @ r" "greeting_word_spec w" "word_boundary_spec w r" by blast
    then have "(Some (last w), r) \<in> set (rmatch greetingWords (None, s))"
      unfolding rmatch_greetingWords by blast
    moreover have "rmatch WordB (Some (last w), r) \<noteq> []"
      using rmatch_WordB_boundary[OF greeting_word_nonempty[OF w(2)], of r] w(3) by simp
    ultimately show "\<exists>q r. (q, r) \<in> set (rmatch greetingWords (None, s)) \<and> rmatch WordB (q, r) \<noteq> []"
      by blast
  qed
  finally show ?thesis unfolding starts_with_greeting_spec_iff .
qed

text \<open>
  C4. The classifier answers \<open>Greeting\<close> exactly when the trimmed, lower-cased message
  starts with a greeting word (\<open>hi\<close>, \<open>hello\<close>, \<open>hey\<close>, \<open>yo\<close> with the last letter written
  one or more times, \<open>sup\<close>, \<open>good morning\<close>, \<open>good evening\<close>, \<open>good afternoon\<close>,
  \<open>good night\<close>) that ends at a word boundary and the message has at most five tokens;
  otherwise it answers \<open>Question\<close>.
\<close>

theorem classify_greeting_iff:
  "(classify msg = Greeting \<longleftrightarrow>
      starts_with_greeting_spec (toLowerCase (trim msg))
      \<and> length (tokens_spec (toLowerCase (trim msg))) \<le> 5)
   \<and> (classify msg = Question \<longleftrightarrow>
      \<not> (starts_with_greeting_spec (toLowerCase (trim msg))
         \<and> length (tokens_spec (toLowerCase (trim msg))) \<le> 5))
   \<and> classify msg = classify_spec msg"
proof -
  define n where "n = toLowerCase (trim msg)"
  have g: "regex_test greetingRegex n \<longleftrightarrow> starts_with_greeting_spec n"
    by (rule isGreeting_spec)
  have t: "wordCount n = length (tokens_spec n)"
    by (rule wordCount_tokens)
  have c: "classify msg =
             (if starts_with_greeting_spec n \<and> length (tokens_spec n) \<le> 5
              then Greeting else Question)"
    by (simp add: classify_def Let_def g t flip: n_def)
  have s: "classify_spec msg =
             (if starts_with_greeting_spec n \<and> length (tokens_spec n) \<le> 5
              then Greeting else Question)"
    by (simp add: classify_spec_def Let_def flip: n_def)
  show ?thesis
    unfolding c s n_def by simp
qed

theorem classify_greeting_iff_witness:
  "classify ''  Hiii there '' = Greeting
   \<and> classify ''hello there how are you doing today'' = Question
   \<and> classify ''hit me'' = Question"
proof -
  have a: "starts_with_greeting_spec (toLowerCase (trim ''  Hiii there ''))"
          "length (tokens_spec (toLowerCase (trim ''  Hiii there ''))) \<le> 5"
    by code_simp+
  have b: "\<not> length (tokens_spec (toLowerCase (trim ''hello there how are you doing today'')))
             \<le> 5"
    by code_simp
  have c: "\<not> starts_with_greeting_spec (toLowerCase (trim ''hit me''))"
    by code_simp
  from classify_greeting_iff[of "''  Hiii there ''"]
       classify_greeting_iff[of "''hello there how are you doing today''"]
       classify_greeting_iff[of "''hit me''"] a b c
  show ?thesis by simp
qed

subsection \<open>Request handlers\<close>

text \<open>
  C7. An Ingest request whose text, or a Query request whose message, is missing or blank
  after trimming is answered with status 400 and a message; the state is returned as it
  was: no call to a collaborator is logged and the store is unchanged. This holds in the
  two servers and, for a \<^verbatim>\<open>POST\<close> request, in the Cloud Functions, whatever the key.
\<close>

theorem blank_request_rejected:
  "(blank (req_text ib) \<longrightarrow>
        ingestText_mem e ib w = (Status 400 ''Missing text'', w)
      \<and> ingestText e ib w = (Status 400 ''Missing text'', w)
      \<and> ingestText_fn e ''POST'' ib w = (Status 400 ''Missing text'', w)
      \<and> is_client_error (Status 400 ''Missing text''))
   \<and> (blank (req_message cb) \<longrightarrow>
        chatRag_mem e cb w = (Status 400 ''Missing message'', w)
      \<and> chatRag e cb w = (Status 400 ''Missing message'', w)
      \<and> chatRag_fn e ''POST'' cb w = (Status 400 ''Missing message'', w)
      \<and> chatRag_fn_old e ''POST'' cb w = (Status 400 ''Missing message'', w)
      \<and> is_client_error (Status 400 ''Missing message''))"
  by (simp add: ingestText_mem_def ingestText_def ingestText_fn_def chatRag_mem_def chatRag_def
        chatRag_fn_def chatRag_fn_old_def onRequest_def is_client_error_def Let_def)

lemma blank_spaces: "blank (Some ''  '')" "blank None" "blank (Some [])"
  by (simp_all add: blank_def trim_def isWhiteSpace_def)

theorem blank_request_rejected_witness:
  "ingestText_mem exampleEnv \<lparr>req_text = Some ''  '', req_sourceType = None, req_sourceName = None\<rparr> exampleWorld
      = (Status 400 ''Missing text'', exampleWorld)
   \<and> ingestText exampleEnv \<lparr>req_text = Some ''  '', req_sourceType = None, req_sourceName = None\<rparr> exampleWorld
      = (Status 400 ''Missing text'', exampleWorld)
   \<and> ingestText_fn exampleEnv ''POST'' \<lparr>req_text = Some ''  '', req_sourceType = None, req_sourceName = None\<rparr> exampleWorld
      = (Status 400 ''Missing text'', exampleWorld)
   \<and> chatRag_mem exampleEnv \<lparr>req_message = None\<rparr> exampleWorld
      = (Status 400 ''Missing message'', exampleWorld)
   \<and> chatRag exampleEnv \<lparr>req_message = None\<rparr> exampleWorld
      = (Status 400 ''Missing message'', exampleWorld)
   \<and> chatRag_fn exampleEnv ''POST'' \<lparr>req_message = None\<rparr> exampleWorld
      = (Status 400 ''Missing message'', exampleWorld)
   \<and> chatRag_fn_old exampleEnv ''POST'' \<lparr>req_message = None\<rparr> exampleWorld
      = (Status 400 ''Missing message'', exampleWorld)"
  using blank_request_rejected[of "\<lparr>req_text = Some ''  '', req_sourceType = None, req_sourceName = None\<rparr>"
      exampleEnv exampleWorld "\<lparr>req_message = None\<rparr>"] blank_spaces
  by simp

text \<open>
  C8, as amended. In the in-memory server, when the key is not configured (absent, or
  shorter than 20 characters) and the request passes validation, Ingest and Query answer
  with status 500 and the message that the key is not configured; this is not the 400 of
  a validation error, and the state is returned as it was, so nothing was called. A
  request that fails validation gets the 400 first.
\<close>

theorem missing_key_rejected_mem:
  assumes "keyNotConfigured e"
  shows "(\<not> blank (req_text ib) \<longrightarrow>
            ingestText_mem e ib w
              = (Status 500 ''GEMINI_API_KEY is not configured on the server'', w)
          \<and> is_server_error (fst (ingestText_mem e ib w))
          \<and> \<not> is_client_error (fst (ingestText_mem e ib w)))
       \<and> (\<not> blank (req_message cb) \<longrightarrow>
            chatRag_mem e cb w
              = (Status 500 ''GEMINI_API_KEY is not configured on the server'', w)
          \<and> is_server_error (fst (chatRag_mem e cb w))
          \<and> \<not> is_client_error (fst (chatRag_mem e cb w)))
       \<and> (blank (req_text ib) \<longrightarrow>
            ingestText_mem e ib w = (Status 400 ''Missing text'', w))
       \<and> (blank (req_message cb) \<longrightarrow>
            chatRag_mem e cb w = (Status 400 ''Missing message'', w))"
  using assms
  by (simp add: ingestText_mem_def chatRag_mem_def is_client_error_def is_server_error_def Let_def)

lemma classify_hi: "classify ''hi'' = Greeting" by code_simp
lemma not_blank_hi: "\<not> blank (Some ''hi'')" by (simp add: blank_def trim_def isWhiteSpace_def)

text \<open>
  C8 as stated fails. Without a key, the in-memory server answers a blank Query with the
  400 of the validation, which comes first; and the Firestore server, which checks the key
  nowhere but in a warning when the module loads, calls the chat model and reports the
  provider's failure.
\<close>

theorem missing_key_counterexample:
  "keyNotConfigured exampleEnv
   \<and> chatRag_mem exampleEnv \<lparr>req_message = None\<rparr> exampleWorld
       = (Status 400 ''Missing message'', exampleWorld)
   \<and> \<not> is_server_error (Status 400 ''Missing message'')
   \<and> GEMINI_API_KEY rejectingEnv = None
   \<and> chatRag rejectingEnv \<lparr>req_message = Some ''hi''\<rparr> exampleWorld
       = (Status 500 ''Error generating answer'',
          exampleWorld\<lparr>calls := [GenerateContent (GreetPrompt ''hi'')]\<rparr>)
   \<and> ingestText rejectingEnv
         \<lparr>req_text = Some ''hi'', req_sourceType = None, req_sourceName = None\<rparr> exampleWorld
       = (Status 500 ''Error ingesting text'',
          exampleWorld\<lparr>calls := [BatchEmbedContents [''hi'']]\<rparr>)"
  by (simp add: chatRag_mem_def chatRag_def ingestText_def blank_spaces not_blank_hi classify_hi
        keyNotConfigured_def exampleEnv_def rejectingEnv_def exampleWorld_def is_server_error_def
        orElse_def answerOr_def logCall_def chunkText_def chunk_loop.simps)

theorem missing_key_rejected_mem_witness:
  "ingestText_mem exampleEnv
       \<lparr>req_text = Some ''hi'', req_sourceType = None, req_sourceName = None\<rparr> exampleWorld
     = (Status 500 ''GEMINI_API_KEY is not configured on the server'', exampleWorld)
   \<and> chatRag_mem exampleEnv \<lparr>req_message = Some ''hi''\<rparr> exampleWorld
     = (Status 500 ''GEMINI_API_KEY is not configured on the server'', exampleWorld)"
proof -
  have k: "keyNotConfigured exampleEnv"
    by (simp add: keyNotConfigured_def exampleEnv_def)
  from missing_key_rejected_mem[OF k,
      of "\<lparr>req_text = Some ''hi'', req_sourceType = None, req_sourceName = None\<rparr>"
         exampleWorld "\<lparr>req_message = Some ''hi''\<rparr>"] not_blank_hi
  show ?thesis by simp
qed

text \<open>
  Greetings where the handler classifies. For a message that passes validation and is
  classified as a greeting (in the in-memory server: with the key configured, which is
  checked before), the only call of the Query operation, in the two servers and in the
  Cloud Function that classifies, is the one to the chat model with the greeting prompt;
  the answer carries \<open>topChunks = []\<close> whenever that call returns (when it throws, the
  answer is the 500 of a provider error); and the response depends neither on the
  embedding gateway nor on the content of the store.
\<close>

theorem greeting_no_retrieval:
  assumes "req_message cb = Some m" and "\<not> blank (Some m)" and "classify m = Greeting"
  shows "(\<not> keyNotConfigured e \<longrightarrow>
            snd (chatRag_mem e cb w) = logCall (GenerateContent (GreetPrompt m)) w
          \<and> (case generateContent e (GreetPrompt m) of
                Inr r \<Rightarrow> fst (chatRag_mem e cb w) = ChatOk (answerOr r greetFallback_mem) []
              | Inl err \<Rightarrow> is_server_error (fst (chatRag_mem e cb w)))
          \<and> fst (chatRag_mem (e\<lparr>embedContent := emb, collectionGet := cg\<rparr>) cb
                   (w\<lparr>ragChunks := docs\<rparr>))
              = fst (chatRag_mem e cb w))
       \<and> snd (chatRag e cb w) = logCall (GenerateContent (GreetPrompt m)) w
       \<and> (case generateContent e (GreetPrompt m) of
             Inr r \<Rightarrow> fst (chatRag e cb w) = ChatOk (answerOr r greetFallback) []
           | Inl err \<Rightarrow> is_server_error (fst (chatRag e cb w)))
       \<and> fst (chatRag (e\<lparr>embedContent := emb, collectionGet := cg\<rparr>) cb
                (w\<lparr>ragChunks := docs\<rparr>))
           = fst (chatRag e cb w)
       \<and> snd (chatRag_fn e ''POST'' cb w) = logCall (GenerateContent (GreetPrompt m)) w
       \<and> (case generateContent e (GreetPrompt m) of
             Inr r \<Rightarrow> fst (chatRag_fn e ''POST'' cb w) = ChatOk (answerOr r greetFallback_mem) []
           | Inl err \<Rightarrow> is_server_error (fst (chatRag_fn e ''POST'' cb w)))
       \<and> fst (chatRag_fn (e\<lparr>embedContent := emb, collectionGet := cg\<rparr>) ''POST'' cb
                (w\<lparr>ragChunks := docs\<rparr>))
           = fst (chatRag_fn e ''POST'' cb w)"
proof -
  have m: "orElse (req_message cb) [] = m"
    using assms(1,2) by (simp add: orElse_def blank_def)
  have k: "keyNotConfigured (e\<lparr>embedContent := emb, collectionGet := cg\<rparr>) = keyNotConfigured e"
    by (simp add: keyNotConfigured_def)
  show ?thesis
    using assms m k
    by (cases "generateContent e (GreetPrompt m)")
       (simp_all add: chatRag_mem_def chatRag_def chatRag_fn_def onRequest_def Let_def
          is_server_error_def logCall_def)
qed

theorem greeting_no_retrieval_witness:
  "chatRag_mem (exampleEnv\<lparr>GEMINI_API_KEY := Some ''0123456789abcdefghij''\<rparr>)
       \<lparr>req_message = Some ''hi''\<rparr> exampleWorld
     = (ChatOk ''hello'' [], exampleWorld\<lparr>calls := [GenerateContent (GreetPrompt ''hi'')]\<rparr>)
   \<and> chatRag exampleEnv \<lparr>req_message = Some ''hi''\<rparr> exampleWorld
     = (ChatOk ''hello'' [], exampleWorld\<lparr>calls := [GenerateContent (GreetPrompt ''hi'')]\<rparr>)"
proof -
  let ?e = "exampleEnv\<lparr>GEMINI_API_KEY := Some ''0123456789abcdefghij''\<rparr>"
  have k: "\<not> keyNotConfigured ?e" by (simp add: keyNotConfigured_def)
  have g: "generateContent ?e (GreetPrompt ''hi'') = Inr (Some ''hello'')"
          "generateContent exampleEnv (GreetPrompt ''hi'') = Inr (Some ''hello'')"
    by (simp_all add: exampleEnv_def)
  have r: "req_message \<lparr>req_message = Some ''hi''\<rparr> = Some ''hi''" by simp
  note t1 = greeting_no_retrieval[OF r not_blank_hi classify_hi, of ?e exampleWorld]
  note t2 = greeting_no_retrieval[OF r not_blank_hi classify_hi, of exampleEnv exampleWorld]
  have a: "chatRag_mem ?e \<lparr>req_message = Some ''hi''\<rparr> exampleWorld
     = (ChatOk ''hello'' [], exampleWorld\<lparr>calls := [GenerateContent (GreetPrompt ''hi'')]\<rparr>)"
    using t1 k g(1) by (simp add: prod_eq_iff answerOr_def orElse_def logCall_def exampleWorld_def)
  have b: "chatRag exampleEnv \<lparr>req_message = Some ''hi''\<rparr> exampleWorld
     = (ChatOk ''hello'' [], exampleWorld\<lparr>calls := [GenerateContent (GreetPrompt ''hi'')]\<rparr>)"
    using t2 g(2) by (simp add: prod_eq_iff answerOr_def orElse_def logCall_def exampleWorld_def)
  from a b show ?thesis by simp
qed

text \<open>
  The older Cloud Function has no greeting branch: it calls the embedding model for
  every message that passes validation.
\<close>

lemma chatRag_fn_old_retrieves:
  assumes "req_message cb = Some m" and "\<not> blank (Some m)"
  shows "\<exists>rest. calls (snd (chatRag_fn_old e ''POST'' cb w)) = calls w @ EmbedContent m # rest"
proof -
  have m: "orElse (req_message cb) [] = m"
    using assms(1,2) by (simp add: orElse_def blank_def)
  show ?thesis
    using assms m
    by (auto simp: chatRag_fn_old_def onRequest_def Let_def logCall_def
          split: sum.splits embed_response.splits option.splits)
qed

text \<open>
  C6. The claim fails in the second Cloud Functions file of \<^verbatim>\<open>src/unnamed/part_001\<close>,
  whose \<^verbatim>\<open>chatRag\<close> has no classifier. The message \<^verbatim>\<open>hi\<close> is a greeting; with one
  record in the store that handler calls the embedding model, reads the store, scores
  the record, sends the chat model the retrieval prompt and answers with one entry in
  \<open>topChunks\<close>. The \<^verbatim>\<open>chatRag\<close> of the first file, given the same request, calls the
  chat model with the greeting prompt and nothing else, and answers with
  \<open>topChunks = []\<close>, as the three handlers that classify always do
  (\<open>greeting_no_retrieval\<close>).
\<close>

theorem chatRag_fn_old_greeting_retrieves:
  "classify ''hi'' = Greeting
   \<and> chatRag_fn_old exampleEnv ''POST'' \<lparr>req_message = Some ''hi''\<rparr>
         (storedWorld [exampleDoc ''a'' (Vec [Num 1, Num 0])])
       = (ChatOk ''hello''
            [\<lparr>tc_id = ''a'', tc_sourceType = ''doc'', tc_sourceName = ''n'', tc_score = Num 1\<rparr>],
          (storedWorld [exampleDoc ''a'' (Vec [Num 1, Num 0])])
            \<lparr>calls := [EmbedContent ''hi'', CollectionGet,
                       GenerateContent
                         (RagPrompt ''hi'' (''[#1 | doc:n | score=1.000]'' @ [nl] @ ''t''))]\<rparr>)
   \<and> chatRag_fn exampleEnv ''POST'' \<lparr>req_message = Some ''hi''\<rparr>
         (storedWorld [exampleDoc ''a'' (Vec [Num 1, Num 0])])
       = (ChatOk ''hello'' [],
          (storedWorld [exampleDoc ''a'' (Vec [Num 1, Num 0])])
            \<lparr>calls := [GenerateContent (GreetPrompt ''hi'')]\<rparr>)"
proof -
  let ?d = "exampleDoc ''a'' (Vec [Num 1, Num 0])"
  have r: "topK_of [with_score ?d (score_of [Num 1, Num 0] ?d)] = [with_score ?d (Num 1)]"
    by (simp add: topK_of_def example_scores)
  have c: "contextText [with_score ?d (Num 1)] = ''[#1 | doc:n | score=1.000]'' @ [nl] @ ''t''"
    by (simp add: contextText_sections section_spec_def natToString_1 toFixed3_1 exampleDoc_def)
  have t: "toTopChunk (with_score ?d (Num 1))
             = \<lparr>tc_id = ''a'', tc_sourceType = ''doc'', tc_sourceName = ''n'', tc_score = Num 1\<rparr>"
    by (simp add: toTopChunk_def exampleDoc_def)
  have 1: "chatRag_fn_old exampleEnv ''POST'' \<lparr>req_message = Some ''hi''\<rparr> (storedWorld [?d])
       = (ChatOk ''hello''
            [\<lparr>tc_id = ''a'', tc_sourceType = ''doc'', tc_sourceName = ''n'', tc_score = Num 1\<rparr>],
          (storedWorld [?d])
            \<lparr>calls := [EmbedContent ''hi'', CollectionGet,
                       GenerateContent
                         (RagPrompt ''hi'' (''[#1 | doc:n | score=1.000]'' @ [nl] @ ''t''))]\<rparr>)"
    by (simp add: chatRag_fn_old_def onRequest_def not_blank_hi Let_def logCall_def orElse_def
          answerOr_def exampleEnv_def storedWorld_def scoredFs_Some scoredOf_def r c t)
  have 2: "chatRag_fn exampleEnv ''POST'' \<lparr>req_message = Some ''hi''\<rparr> (storedWorld [?d])
       = (ChatOk ''hello'' [],
          (storedWorld [?d])\<lparr>calls := [GenerateContent (GreetPrompt ''hi'')]\<rparr>)"
    by (simp add: chatRag_fn_def onRequest_def not_blank_hi classify_hi Let_def logCall_def
          orElse_def answerOr_def exampleEnv_def storedWorld_def)
  from classify_hi 1 2 show ?thesis by simp
qed

subsection \<open>The chunker\<close>

lemma chunk_loop_props:
  assumes "0 < M"
  shows "\<exists>cs. chunk_loop text M start acc = Some (acc @ cs)
            \<and> concat cs = drop start text
            \<and> length cs = (length text - start + M - 1) div M
            \<and> (\<forall>c \<in> set cs. c \<noteq> [] \<and> length c \<le> M)"
proof (induction "length text - start" arbitrary: start acc rule: less_induct)
  case less
  show ?case
  proof (cases "start < length text")
    case False
    then show ?thesis using assms by (subst chunk_loop.simps) simp
  next
    case True
    let ?c = "take M (drop start text)"
    have dec: "length text - (start + M) < length text - start"
      using True assms by arith
    from less[OF dec, of "acc @ [?c]"] obtain cs where
      run: "chunk_loop text M (start + M) (acc @ [?c]) = Some ((acc @ [?c]) @ cs)"
      and cat: "concat cs = drop (start + M) text"
      and len: "length cs = (length text - (start + M) + M - 1) div M"
      and bnd: "\<forall>c \<in> set cs. c \<noteq> [] \<and> length c \<le> M"
      by blast
    have 1: "chunk_loop text M start acc = Some (acc @ (?c # cs))"
      using True run by (subst chunk_loop.simps) simp
    have 2: "concat (?c # cs) = drop start text"
      using cat by (simp add: add.commute[of start M] flip: drop_drop)
    have 3: "length (?c # cs) = (length text - start + M - 1) div M"
    proof -
      obtain k where k: "length text - start = Suc k"
        using True by (cases "length text - start") auto
      show ?thesis
      proof (cases "M \<le> Suc k")
        case True
        then have "length text - (start + M) + M - 1 = k" using k by arith
        moreover have "Suc k + M - 1 = k + M" by simp
        moreover have "(k + M) div M = Suc (k div M)"
          using assms by simp
        ultimately show ?thesis using len k by simp
      next
        case False
        then have a: "length text - (start + M) + M - 1 = M - 1" using k by arith
        have b: "(M - 1) div M = 0" using assms by simp
        have "Suc k + M - 1 = k + M" by simp
        moreover have "(k + M) div M = 1" using False assms by simp
        ultimately show ?thesis using len k a b by simp
      qed
    qed
    have 4: "\<forall>c \<in> set (?c # cs). c \<noteq> [] \<and> length c \<le> M"
      using bnd True assms by auto
    from 1 2 3 4 show ?thesis by blast
  qed
qed

lemma ceiling_div_nat:
  assumes "0 < (M::nat)"
  shows "\<lceil>real n / real M\<rceil> = int ((n + M - 1) div M)"
proof -
  define q where "q = (n + M - 1) div M"
  define r where "r = (n + M - 1) mod M"
  have eq: "n + M - 1 = q * M + r" and r: "r < M"
    using assms by (simp_all add: q_def r_def)
  have up: "real n \<le> real q * real M"
  proof -
    have "n \<le> q * M" using eq r assms by arith
    then have "real n \<le> real (q * M)" by (rule of_nat_mono)
    then show ?thesis by simp
  qed
  have lo: "real q * real M < real n + real M"
  proof -
    have "q * M < n + M" using eq r assms by arith
    then have "real (q * M) < real (n + M)" by (simp only: of_nat_less_iff)
    then show ?thesis by simp
  qed
  have Mpos: "0 < real M" using assms by simp
  have 1: "real n / real M \<le> real q"
    using up Mpos by (simp add: pos_divide_le_eq)
  have "(real q - 1) * real M < real n"
    using lo by (simp add: algebra_simps)
  then have 2: "real q - 1 < real n / real M"
    using Mpos by (simp only: pos_less_divide_eq)
  have "\<lceil>real n / real M\<rceil> = int q"
    using 1 2 by (intro ceiling_unique) simp_all
  then show ?thesis by (simp add: q_def)
qed

text \<open>
  C3. For every text \<open>T\<close> and every maximum chunk size \<open>M > 0\<close>, \<open>chunkText\<close> returns
  (in both variants): the chunks, in order, concatenate to \<open>T\<close>; there are
  \<open>\<lceil>length T / M\<rceil>\<close> of them; none is longer than \<open>M\<close>. With the argument omitted the
  size is 800, and the empty text gives the empty sequence.
\<close>

theorem chunkText_contract:
  assumes "0 < M"
  shows "\<forall>f \<in> {chunkText, chunkText_mem}.
           (\<exists>cs. f T (Some M) = Some cs \<and> concat cs = T
                 \<and> int (length cs) = \<lceil>real (length T) / real M\<rceil>
                 \<and> (\<forall>c \<in> set cs. length c \<le> M))
         \<and> (\<exists>cs. f T None = Some cs \<and> concat cs = T
                 \<and> int (length cs) = \<lceil>real (length T) / 800\<rceil>
                 \<and> (\<forall>c \<in> set cs. length c \<le> 800))
         \<and> f [] (Some M) = Some [] \<and> f [] None = Some []"
proof -
  have main: "\<exists>cs. chunk_loop T m 0 [] = Some cs \<and> concat cs = T
                 \<and> int (length cs) = \<lceil>real (length T) / real m\<rceil>
                 \<and> (\<forall>c \<in> set cs. length c \<le> m)" if "0 < m" for m
    using chunk_loop_props[OF that, of T 0 "[]"] ceiling_div_nat[OF that, of "length T"]
    by auto
  have empty: "chunk_loop ([]::'a list) m 0 [] = Some []" for m
    by (subst chunk_loop.simps) simp
  have "real (800::nat) = 800" by simp
  with main[of 800] have d: "\<exists>cs. chunk_loop T 800 0 [] = Some cs \<and> concat cs = T
                 \<and> int (length cs) = \<lceil>real (length T) / 800\<rceil>
                 \<and> (\<forall>c \<in> set cs. length c \<le> 800)"
    by simp
  show ?thesis
    using main[OF assms] d empty assms by (simp add: chunkText_def chunkText_mem_def)
qed

theorem chunkText_contract_witness:
  "chunkText ''abcde'' (Some 2) = Some [''ab'', ''cd'', ''e'']
   \<and> chunkText_mem ''abcde'' (Some 2) = Some [''ab'', ''cd'', ''e'']
   \<and> (\<exists>cs. chunkText ''abcde'' (Some 2) = Some cs \<and> concat cs = ''abcde''
          \<and> int (length cs) = \<lceil>real (length ''abcde'') / real (2::nat)\<rceil>
          \<and> (\<forall>c \<in> set cs. length c \<le> 2))"
proof -
  have h: "0 < (2::nat)" by simp
  have a: "chunkText ''abcde'' (Some 2) = Some [''ab'', ''cd'', ''e'']"
    by (simp add: chunkText_def chunk_loop.simps)
  have b: "chunkText_mem ''abcde'' (Some 2) = Some [''ab'', ''cd'', ''e'']"
    by (simp add: chunkText_mem_def chunk_loop.simps)
  from chunkText_contract[OF h, of "''abcde''"] a b show ?thesis by blast
qed

end
